theory Spec2Isabelle
  imports Complex_Main
begin

section \<open>Values of the interpreter\<close>

text \<open>
  The program is \<^verbatim>\<open>main.py\<close>: one function, \<^verbatim>\<open>fetch_myntra_product\<close>, that validates a
  URL, fetches the page, finds the script holding \<^verbatim>\<open>pdpData\<close>, decodes the JSON object in
  it and maps it onto the five fields of \<^verbatim>\<open>ProductResponse\<close>.

  A Python \<^verbatim>\<open>str\<close> is modelled by the list of the bytes of its UTF-8 encoding, so that an
  ASCII literal of the source is the same literal here, and a substring test or a search
  for an ASCII character gives the same answer on the bytes as on the code points.

  A Python \<^verbatim>\<open>float\<close> is its exact rational value, or one of the three special values.
  The sign of a zero is not kept: nothing in the program observes it.
\<close>

datatype pyfloat = Finite rat | PosInf | NegInf | NaN

text \<open>What \<^verbatim>\<open>json.loads\<close> can return. A \<^verbatim>\<open>dict\<close> is the list of its items in insertion order.\<close>

datatype pyval =
    PyNone
  | PyBool bool
  | PyInt int
  | PyFloat pyfloat
  | PyStr string
  | PyList "pyval list"
  | PyDict "(string \<times> pyval) list"

text \<open>
  Exceptions. \<open>HTTPException status_code detail\<close> is the one the handler raises itself;
  the others are raised by the interpreter or by a library and carry the text of
  \<^verbatim>\<open>str(e)\<close> where the program reads it. \<open>ValueError\<close> stands for its subclass
  \<^verbatim>\<open>JSONDecodeError\<close> too. \<open>FuelExhausted\<close> is not a Python exception: it marks a
  decoder run that was given too few steps, which \<open>json_loads\<close> never does.
\<close>

datatype py_exn =
    HTTPException int string
  | RequestException string
  | ValueError string
  | RecursionError string
  | AttributeError
  | KeyError
  | IndexError
  | TypeError
  | OverflowError
  | ValidationError
  | FuelExhausted

record response =
  status_code :: int
  body_text :: string

record ProductResponse =
  title :: string
  primary_image :: string
  original_price :: int
  discounted_price :: int
  in_stock :: bool

text \<open>
  The collaborators the program calls and that are not part of it. Each is a parameter:
  \<^item> \<open>urlparse_netloc url\<close>: \<^verbatim>\<open>urlparse(url).netloc\<close>, or the exception \<^verbatim>\<open>urlparse\<close> raises;
  \<^item> \<open>requests_get url headers timeout\<close>: the response of \<^verbatim>\<open>requests.get\<close>, or its exception;
  \<^item> \<open>script_texts html\<close>: \<^verbatim>\<open>get_text(strip=True)\<close> of every element of
    \<^verbatim>\<open>BeautifulSoup(html, "lxml").find_all("script")\<close>, in document order;
  \<^item> \<open>float_of_str\<close>: \<^verbatim>\<open>float\<close> on a JSON number literal with a fraction or an exponent;
  \<^item> \<open>int_of_str\<close>: \<^verbatim>\<open>int\<close> on an arbitrary \<^verbatim>\<open>str\<close>;
  \<^item> \<open>int_max_str_digits\<close>: \<^verbatim>\<open>sys.get_int_max_str_digits()\<close>, 0 for no limit;
  \<^item> \<open>recursion_budget\<close>: how many nested containers the decoder may enter before the
    interpreter raises \<^verbatim>\<open>RecursionError\<close>;
  \<^item> \<open>loads_error_str doc\<close>: \<^verbatim>\<open>str(e)\<close> of the exception \<^verbatim>\<open>json.loads(doc)\<close> raises;
  \<^item> \<open>coerce_str v\<close>: what the \<^verbatim>\<open>str\<close> fields of the pydantic model make of a value that is
    not a \<^verbatim>\<open>str\<close> (\<open>None\<close> when validation fails).
\<close>

record env =
  urlparse_netloc :: "string \<Rightarrow> py_exn + string"
  requests_get :: "string \<Rightarrow> (string \<times> string) list \<Rightarrow> nat \<Rightarrow> py_exn + response"
  script_texts :: "string \<Rightarrow> string list"
  float_of_str :: "string \<Rightarrow> pyfloat"
  int_of_str :: "string \<Rightarrow> py_exn + int"
  int_max_str_digits :: nat
  recursion_budget :: nat
  loads_error_str :: "string \<Rightarrow> string"
  coerce_str :: "pyval \<Rightarrow> string option"

section \<open>Operations of the interpreter\<close>

text \<open>\<^verbatim>\<open>bool(v)\<close>, which \<^verbatim>\<open>or\<close>, \<^verbatim>\<open>and\<close>, \<^verbatim>\<open>not\<close> and \<^verbatim>\<open>if\<close> consult.\<close>

fun truthy :: "pyval \<Rightarrow> bool" where
  "truthy PyNone = False"
| "truthy (PyBool b) = b"
| "truthy (PyInt i) = (i \<noteq> 0)"
| "truthy (PyFloat f) = (f \<noteq> Finite 0)"
| "truthy (PyStr s) = (s \<noteq> [])"
| "truthy (PyList xs) = (xs \<noteq> [])"
| "truthy (PyDict kvs) = (kvs \<noteq> [])"

text \<open>\<^verbatim>\<open>a or b\<close>: \<open>a\<close> when it is truthy, otherwise whatever evaluating \<open>b\<close> gives.\<close>

definition py_or :: "pyval \<Rightarrow> py_exn + pyval \<Rightarrow> py_exn + pyval" where
  "py_or a b = (if truthy a then Inr a else b)"

text \<open>Sequencing of a computation that may raise.\<close>

definition bind :: "py_exn + 'a \<Rightarrow> ('a \<Rightarrow> py_exn + 'b) \<Rightarrow> py_exn + 'b" where
  "bind m f = (case m of Inl e \<Rightarrow> Inl e | Inr v \<Rightarrow> f v)"

text \<open>\<^verbatim>\<open>v.get(key, default)\<close>: only a \<^verbatim>\<open>dict\<close> has the method.\<close>

fun py_get :: "pyval \<Rightarrow> string \<Rightarrow> pyval \<Rightarrow> py_exn + pyval" where
  "py_get (PyDict kvs) k dflt = Inr (case map_of kvs k of None \<Rightarrow> dflt | Some v \<Rightarrow> v)"
| "py_get PyNone k dflt = Inl AttributeError"
| "py_get (PyBool b) k dflt = Inl AttributeError"
| "py_get (PyInt i) k dflt = Inl AttributeError"
| "py_get (PyFloat f) k dflt = Inl AttributeError"
| "py_get (PyStr s) k dflt = Inl AttributeError"
| "py_get (PyList xs) k dflt = Inl AttributeError"

definition is_continuation :: "char \<Rightarrow> bool" where
  "is_continuation c = (128 \<le> (of_char c :: nat) \<and> (of_char c :: nat) < 192)"

text \<open>
  \<^verbatim>\<open>v[0]\<close>: the first element of a list, the first character of a string (its first
  byte and the continuation bytes after it), \<^verbatim>\<open>IndexError\<close> on an empty sequence,
  \<^verbatim>\<open>KeyError\<close> on a dict (the keys of a decoded object are strings, never \<^verbatim>\<open>0\<close>),
  \<^verbatim>\<open>TypeError\<close> on \<^verbatim>\<open>None\<close> and on a number.
\<close>

fun py_index0 :: "pyval \<Rightarrow> py_exn + pyval" where
  "py_index0 (PyList (x # xs)) = Inr x"
| "py_index0 (PyList []) = Inl IndexError"
| "py_index0 (PyStr (c # cs)) = Inr (PyStr (c # takeWhile is_continuation cs))"
| "py_index0 (PyStr []) = Inl IndexError"
| "py_index0 (PyDict kvs) = Inl KeyError"
| "py_index0 PyNone = Inl TypeError"
| "py_index0 (PyBool b) = Inl TypeError"
| "py_index0 (PyInt i) = Inl TypeError"
| "py_index0 (PyFloat f) = Inl TypeError"

text \<open>\<^verbatim>\<open>isinstance(v, list)\<close>.\<close>

fun is_list :: "pyval \<Rightarrow> bool" where
  "is_list (PyList xs) = True"
| "is_list v = False"

text \<open>\<^verbatim>\<open>int(v)\<close>: a float is truncated towards zero.\<close>

definition trunc :: "rat \<Rightarrow> int" where
  "trunc q = (if 0 \<le> q then \<lfloor>q\<rfloor> else \<lceil>q\<rceil>)"

fun py_int :: "env \<Rightarrow> pyval \<Rightarrow> py_exn + int" where
  "py_int env (PyInt i) = Inr i"
| "py_int env (PyBool b) = Inr (if b then 1 else 0)"
| "py_int env (PyFloat (Finite q)) = Inr (trunc q)"
| "py_int env (PyFloat PosInf) = Inl OverflowError"
| "py_int env (PyFloat NegInf) = Inl OverflowError"
| "py_int env (PyFloat NaN) = Inl (ValueError ''cannot convert float NaN to integer'')"
| "py_int env (PyStr s) = int_of_str env s"
| "py_int env PyNone = Inl TypeError"
| "py_int env (PyList xs) = Inl TypeError"
| "py_int env (PyDict kvs) = Inl TypeError"

text \<open>\<^verbatim>\<open>sub in s\<close> on strings.\<close>

fun str_contains :: "string \<Rightarrow> string \<Rightarrow> bool" where
  "str_contains sub [] = (sub = [])"
| "str_contains sub (c # cs) = (take (length sub) (c # cs) = sub \<or> str_contains sub cs)"

text \<open>\<^verbatim>\<open>str(n)\<close> of an integer, for the f-string of the status code.\<close>

definition digit_char :: "nat \<Rightarrow> char" where
  "digit_char d = ''0123456789'' ! d"

function str_nat :: "nat \<Rightarrow> string" where
  "str_nat n = (if n < 10 then [digit_char n] else str_nat (n div 10) @ [digit_char (n mod 10)])"
  by pat_completeness auto
termination
  by (relation "measure id") auto

declare str_nat.simps [simp del]

definition str_int :: "int \<Rightarrow> string" where
  "str_int i = (if i < 0 then CHR ''-'' # str_nat (nat (- i)) else str_nat (nat i))"

section \<open>The field mapper (lines 102 to 160)\<close>

text \<open>Line 103: \<^verbatim>\<open>data = raw_data.get("pdpData") or raw_data\<close>.\<close>

definition effective_record :: "pyval \<Rightarrow> py_exn + pyval" where
  "effective_record raw_data =
     bind (py_get raw_data ''pdpData'' PyNone) (\<lambda>v. py_or v (Inr raw_data))"

text \<open>Lines 108 to 112.\<close>

definition map_title :: "pyval \<Rightarrow> py_exn + pyval" where
  "map_title data =
     bind (py_get data ''name'' PyNone) (\<lambda>name.
       py_or name
         (bind (py_get data ''product'' (PyDict [])) (\<lambda>product.
            bind (py_get product ''productName'' PyNone) (\<lambda>product_name.
              py_or product_name (Inr (PyStr ''Unknown Product''))))))"

text \<open>
  Lines 115 to 130. \<open>primary_image\<close> starts as \<^verbatim>\<open>None\<close>, is assigned only inside the two
  nested \<^verbatim>\<open>if\<close>s, and a falsy value is replaced by the empty string at the end.
\<close>

definition map_primary_image :: "pyval \<Rightarrow> py_exn + pyval" where
  "map_primary_image data =
     bind (py_get data ''media'' PyNone) (\<lambda>m.
     bind (py_or m (Inr (PyDict []))) (\<lambda>media.
     bind (py_get media ''albums'' PyNone) (\<lambda>a.
     bind (py_or a (Inr (PyList []))) (\<lambda>albums.
     bind (if truthy albums \<and> is_list albums then
             bind (py_index0 albums) (\<lambda>album.
             bind (py_get album ''images'' PyNone) (\<lambda>i.
             bind (py_or i (Inr (PyList []))) (\<lambda>images.
               if truthy images then
                 bind (py_index0 images) (\<lambda>img.
                 bind (py_get img ''secureSrc'' PyNone) (\<lambda>secure_src.
                   py_or secure_src
                     (bind (py_get img ''imageURL'' PyNone) (\<lambda>image_url.
                        py_or image_url (py_get img ''src'' PyNone)))))
               else Inr PyNone)))
           else Inr PyNone) (\<lambda>primary_image.
       Inr (if \<not> truthy primary_image then PyStr [] else primary_image))))))"

text \<open>Line 133.\<close>

definition map_price_info :: "pyval \<Rightarrow> py_exn + pyval" where
  "map_price_info data =
     bind (py_get data ''price'' PyNone) (\<lambda>p. py_or p (Inr (PyDict [])))"

text \<open>Lines 135 to 140.\<close>

definition map_original_price :: "pyval \<Rightarrow> pyval \<Rightarrow> py_exn + pyval" where
  "map_original_price data price_info =
     bind (py_get data ''mrp'' PyNone) (\<lambda>mrp.
       py_or mrp
         (bind (py_get price_info ''mrp'' PyNone) (\<lambda>price_mrp.
            py_or price_mrp
              (bind (py_get price_info ''marked'' PyNone) (\<lambda>marked.
                 py_or marked (Inr (PyInt 0)))))))"

text \<open>Lines 142 to 147.\<close>

definition map_discounted_price :: "pyval \<Rightarrow> pyval \<Rightarrow> pyval \<Rightarrow> py_exn + pyval" where
  "map_discounted_price data price_info original =
     bind (py_get data ''discountedPrice'' PyNone) (\<lambda>discounted.
       py_or discounted
         (bind (py_get price_info ''discountedPrice'' PyNone) (\<lambda>price_discounted.
            py_or price_discounted
              (bind (py_get price_info ''effective'' PyNone) (\<lambda>effective.
                 py_or effective (Inr original))))))"

text \<open>Lines 150 and 151.\<close>

definition map_in_stock :: "pyval \<Rightarrow> py_exn + bool" where
  "map_in_stock data =
     bind (py_get data ''flags'' PyNone) (\<lambda>f.
     bind (py_or f (Inr (PyDict []))) (\<lambda>flags.
     bind (py_get flags ''outOfStock'' (PyBool False)) (\<lambda>out_of_stock.
       Inr (\<not> truthy out_of_stock))))"

text \<open>
  The constructor of the pydantic model: a \<^verbatim>\<open>str\<close> field takes a \<^verbatim>\<open>str\<close> as it is and
  leaves any other value to the library's coercion; the two integer fields and the
  boolean field receive an \<^verbatim>\<open>int\<close> and a \<^verbatim>\<open>bool\<close> and accept them.
\<close>

definition str_field :: "env \<Rightarrow> pyval \<Rightarrow> py_exn + string" where
  "str_field env v =
     (case v of
        PyStr s \<Rightarrow> Inr s
      | _ \<Rightarrow> (case coerce_str env v of None \<Rightarrow> Inl ValidationError | Some s \<Rightarrow> Inr s))"

definition ProductResponse_init ::
  "env \<Rightarrow> pyval \<Rightarrow> pyval \<Rightarrow> int \<Rightarrow> int \<Rightarrow> bool \<Rightarrow> py_exn + ProductResponse" where
  "ProductResponse_init env t img original discounted stock =
     (case (str_field env t, str_field env img) of
        (Inr t', Inr img') \<Rightarrow>
          Inr \<lparr>title = t', primary_image = img', original_price = original,
               discounted_price = discounted, in_stock = stock\<rparr>
      | _ \<Rightarrow> Inl ValidationError)"

text \<open>Lines 105 to 160, on the effective record.\<close>

definition map_record :: "env \<Rightarrow> pyval \<Rightarrow> py_exn + ProductResponse" where
  "map_record env data =
     bind (map_title data) (\<lambda>t.
     bind (map_primary_image data) (\<lambda>img.
     bind (map_price_info data) (\<lambda>price_info.
     bind (map_original_price data price_info) (\<lambda>original.
     bind (map_discounted_price data price_info original) (\<lambda>discounted.
     bind (map_in_stock data) (\<lambda>stock.
     bind (bind (py_or original (Inr (PyInt 0))) (py_int env)) (\<lambda>original_int.
     bind (bind (py_or discounted (Inr (PyInt 0))) (py_int env)) (\<lambda>discounted_int.
       ProductResponse_init env t img original_int discounted_int stock))))))))"

text \<open>Lines 102 to 160, on the decoded value.\<close>

definition map_fields :: "env \<Rightarrow> pyval \<Rightarrow> py_exn + ProductResponse" where
  "map_fields env raw_data = bind (effective_record raw_data) (map_record env)"

section \<open>The decoder: \<^verbatim>\<open>json.loads\<close>\<close>

text \<open>
  The standard library's decoder with its default settings (strict strings, the constants
  \<^verbatim>\<open>NaN\<close>, \<^verbatim>\<open>Infinity\<close> and \<^verbatim>\<open>-Infinity\<close> accepted, an object built as a \<^verbatim>\<open>dict\<close>), written
  as its scanner is: a function from the text at the current index to the value read and
  the text after it. The diagnostic text of a failure is left to \<open>loads_error_str\<close>.
\<close>

definition is_ws :: "char \<Rightarrow> bool" where
  "is_ws c = (c = CHR '' '' \<or> c = CHR 0x09 \<or> c = CHR 0x0A \<or> c = CHR 0x0D)"

definition skip_ws :: "string \<Rightarrow> string" where
  "skip_ws s = dropWhile is_ws s"

definition is_digit :: "char \<Rightarrow> bool" where
  "is_digit c = (c \<in> set ''0123456789'')"

definition digit_val :: "char \<Rightarrow> nat" where
  "digit_val c = of_char c - 48"

definition hex_val :: "char \<Rightarrow> nat option" where
  "hex_val c =
     (if is_digit c then Some (of_char c - 48)
      else if c \<in> set ''abcdef'' then Some (of_char c - 87)
      else if c \<in> set ''ABCDEF'' then Some (of_char c - 55)
      else None)"

text \<open>The four hexadecimal digits of a \<^verbatim>\<open>\uXXXX\<close> escape.\<close>

definition decode_uXXXX :: "string \<Rightarrow> nat option" where
  "decode_uXXXX s =
     (case map hex_val (take 4 s) of
        [Some a, Some b, Some c, Some d] \<Rightarrow> Some (((a * 16 + b) * 16 + c) * 16 + d)
      | _ \<Rightarrow> None)"

text \<open>\<^verbatim>\<open>chr(u)\<close> as UTF-8 bytes; a lone surrogate is written with three bytes like its neighbours.\<close>

definition utf8 :: "nat \<Rightarrow> string" where
  "utf8 u =
     (if u < 128 then [char_of u]
      else if u < 2048 then [char_of (192 + u div 64), char_of (128 + u mod 64)]
      else if u < 65536 then
        [char_of (224 + u div 4096), char_of (128 + u div 64 mod 64), char_of (128 + u mod 64)]
      else
        [char_of (240 + u div 262144), char_of (128 + u div 4096 mod 64),
         char_of (128 + u div 64 mod 64), char_of (128 + u mod 64)])"

definition backslash :: "char \<Rightarrow> char option" where
  "backslash c =
     (if c = CHR 0x22 \<or> c = CHR 0x5C \<or> c = CHR ''/'' then Some c
      else if c = CHR ''b'' then Some (CHR 0x08)
      else if c = CHR ''f'' then Some (CHR 0x0C)
      else if c = CHR ''n'' then Some (CHR 0x0A)
      else if c = CHR ''r'' then Some (CHR 0x0D)
      else if c = CHR ''t'' then Some (CHR 0x09)
      else None)"

definition is_high_surrogate :: "nat \<Rightarrow> bool" where
  "is_high_surrogate u = (55296 \<le> u \<and> u \<le> 56319)"

definition is_low_surrogate :: "nat \<Rightarrow> bool" where
  "is_low_surrogate u = (56320 \<le> u \<and> u \<le> 57343)"

text \<open>
  A high surrogate escape followed at once by a low surrogate escape is one character:
  the argument is the text after the first escape, the results are the code point and
  how many more characters were read.
\<close>

definition join_surrogates :: "nat \<Rightarrow> string \<Rightarrow> nat \<times> nat" where
  "join_surrogates u s =
     (if is_high_surrogate u \<and> take 2 s = [CHR 0x5C, CHR ''u''] then
        (case decode_uXXXX (drop 2 s) of
           Some u2 \<Rightarrow>
             if is_low_surrogate u2 then (65536 + ((u - 55296) * 1024 + (u2 - 56320)), 6)
             else (u, 0)
         | None \<Rightarrow> (u, 0))
      else (u, 0))"

text \<open>
  \<^verbatim>\<open>scanstring\<close> from the character after the opening quote: the content of the string
  and the text after the closing quote, or \<open>None\<close> when the string is not terminated,
  holds a control character or has an escape that is not one.
\<close>

fun scanstring :: "string \<Rightarrow> (string \<times> string) option" where
  "scanstring [] = None"
| "scanstring (c # cs) =
     (if c = CHR 0x22 then Some ([], cs)
      else if c = CHR 0x5C then
        (case cs of
           [] \<Rightarrow> None
         | e # es \<Rightarrow>
             if e = CHR ''u'' then
               (case decode_uXXXX es of
                  None \<Rightarrow> None
                | Some u \<Rightarrow>
                    (case scanstring (drop (snd (join_surrogates u (drop 4 es))) (drop 4 es)) of
                       None \<Rightarrow> None
                     | Some (content, r) \<Rightarrow>
                         Some (utf8 (fst (join_surrogates u (drop 4 es))) @ content, r)))
             else
               (case backslash e of
                  None \<Rightarrow> None
                | Some ch \<Rightarrow>
                    (case scanstring es of
                       None \<Rightarrow> None
                     | Some (content, r) \<Rightarrow> Some (ch # content, r))))
      else if (of_char c :: nat) \<le> 31 then None
      else
        (case scanstring cs of
           None \<Rightarrow> None
         | Some (content, r) \<Rightarrow> Some (c # content, r)))"

text \<open>
  The number pattern \<^verbatim>\<open>(-?(?:0|[1-9]\d*))(\.\d+)?([eE][-+]?\d+)?\<close> matched at the start of
  the text, with ASCII digits: the three groups and the text after the match.
\<close>

definition match_frac :: "string \<Rightarrow> string \<times> string" where
  "match_frac s =
     (case s of
        d # x # xs \<Rightarrow>
          if d = CHR ''.'' \<and> is_digit x
          then (d # takeWhile is_digit (x # xs), dropWhile is_digit (x # xs))
          else ([], s)
      | _ \<Rightarrow> ([], s))"

definition match_exp :: "string \<Rightarrow> string \<times> string" where
  "match_exp s =
     (case s of
        [] \<Rightarrow> ([], s)
      | e # xs \<Rightarrow>
          if e = CHR ''e'' \<or> e = CHR ''E'' then
            (let sg = (if take 1 xs = ''+'' \<or> take 1 xs = ''-'' then take 1 xs else []);
                 ys = drop (length sg) xs
             in if takeWhile is_digit ys \<noteq> []
                then (e # sg @ takeWhile is_digit ys, dropWhile is_digit ys)
                else ([], s))
          else ([], s))"

definition match_integer :: "string \<Rightarrow> (string \<times> string) option" where
  "match_integer s =
     (let sg = (if take 1 s = ''-'' then ''-'' else []);
          s1 = drop (length sg) s
      in case s1 of
           [] \<Rightarrow> None
         | c # cs \<Rightarrow>
             if c = CHR ''0'' then Some (sg @ [c], cs)
             else if is_digit c then Some (sg @ c # takeWhile is_digit cs, dropWhile is_digit cs)
             else None)"

definition match_number :: "string \<Rightarrow> (string \<times> string \<times> string \<times> string) option" where
  "match_number s =
     (case match_integer s of
        None \<Rightarrow> None
      | Some (integer, r) \<Rightarrow>
          (let (fraction, r1) = match_frac r; (exponent, r2) = match_exp r1
           in Some (integer, fraction, exponent, r2)))"

text \<open>\<^verbatim>\<open>int\<close> on the integer group: the digits in base ten, refused beyond the digit limit.\<close>

definition parse_int :: "env \<Rightarrow> string \<Rightarrow> int option" where
  "parse_int env integer =
     (let ds = filter is_digit integer;
          n = foldl (\<lambda>acc d. 10 * acc + int (digit_val d)) 0 ds
      in if 0 < int_max_str_digits env \<and> int_max_str_digits env < length ds then None
         else Some (if take 1 integer = ''-'' then - n else n))"

text \<open>\<^verbatim>\<open>dict(pairs)\<close>: a key that comes again keeps its place and takes the new value.\<close>

fun dict_setitem :: "(string \<times> pyval) list \<Rightarrow> string \<Rightarrow> pyval \<Rightarrow> (string \<times> pyval) list" where
  "dict_setitem [] k v = [(k, v)]"
| "dict_setitem ((k', v') # kvs) k v =
     (if k' = k then (k, v) # kvs else (k', v') # dict_setitem kvs k v)"

definition dict_of_pairs :: "(string \<times> pyval) list \<Rightarrow> (string \<times> pyval) list" where
  "dict_of_pairs pairs = foldl (\<lambda>d (k, v). dict_setitem d k v) [] pairs"

text \<open>
  Why the decoder gives up: the text is not JSON, an integer has more digits than the
  limit, or the nesting is deeper than the interpreter's stack.
\<close>

datatype reject = Malformed | TooManyDigits | TooDeep

text \<open>
  The result of a scan: the value read and the text after it, a refusal, or
  \<open>Exhausted\<close> when the step counter of the model reached zero.
\<close>

datatype 'a scanned = Scanned 'a string | Rejected reject | Exhausted

text \<open>
  \<open>scan_once\<close> reads one value from the start of the text; \<open>parse_object_items\<close> is the
  loop of the object parser, entered at a key; \<open>parse_array_items\<close> is the loop of the
  array parser, entered at an element. The first number counts the calls still allowed
  (every call of the three uses one), the second the containers that may still be entered.
\<close>

fun scan_once :: "env \<Rightarrow> nat \<Rightarrow> nat \<Rightarrow> string \<Rightarrow> pyval scanned"
and parse_object_items :: "env \<Rightarrow> nat \<Rightarrow> nat \<Rightarrow> string \<Rightarrow> (string \<times> pyval) list scanned"
and parse_array_items :: "env \<Rightarrow> nat \<Rightarrow> nat \<Rightarrow> string \<Rightarrow> pyval list scanned"
where
  "scan_once env 0 depth s = Exhausted"
| "scan_once env (Suc n) depth s =
     (case s of
        [] \<Rightarrow> Rejected Malformed
      | c # cs \<Rightarrow>
          if c = CHR 0x22 then
            (case scanstring cs of
               None \<Rightarrow> Rejected Malformed
             | Some (content, r) \<Rightarrow> Scanned (PyStr content) r)
          else if c = CHR ''{'' then
            (if depth = 0 then Rejected TooDeep
             else if take 1 (skip_ws cs) = ''}'' then Scanned (PyDict []) (drop 1 (skip_ws cs))
             else
               (case parse_object_items env n (depth - 1) (skip_ws cs) of
                  Scanned pairs r \<Rightarrow> Scanned (PyDict (dict_of_pairs pairs)) r
                | Rejected why \<Rightarrow> Rejected why
                | Exhausted \<Rightarrow> Exhausted))
          else if c = CHR ''['' then
            (if depth = 0 then Rejected TooDeep
             else if take 1 (skip_ws cs) = '']'' then Scanned (PyList []) (drop 1 (skip_ws cs))
             else
               (case parse_array_items env n (depth - 1) (skip_ws cs) of
                  Scanned vs r \<Rightarrow> Scanned (PyList vs) r
                | Rejected why \<Rightarrow> Rejected why
                | Exhausted \<Rightarrow> Exhausted))
          else if take 4 s = ''null'' then Scanned PyNone (drop 4 s)
          else if take 4 s = ''true'' then Scanned (PyBool True) (drop 4 s)
          else if take 5 s = ''false'' then Scanned (PyBool False) (drop 5 s)
          else
            (case match_number s of
               Some (integer, fraction, exponent, r) \<Rightarrow>
                 if fraction @ exponent \<noteq> []
                 then Scanned (PyFloat (float_of_str env (integer @ fraction @ exponent))) r
                 else
                   (case parse_int env integer of
                      None \<Rightarrow> Rejected TooManyDigits
                    | Some i \<Rightarrow> Scanned (PyInt i) r)
             | None \<Rightarrow>
                 if take 3 s = ''NaN'' then Scanned (PyFloat NaN) (drop 3 s)
                 else if take 8 s = ''Infinity'' then Scanned (PyFloat PosInf) (drop 8 s)
                 else if take 9 s = ''-Infinity'' then Scanned (PyFloat NegInf) (drop 9 s)
                 else Rejected Malformed))"
| "parse_object_items env 0 depth s = Exhausted"
| "parse_object_items env (Suc n) depth s =
     (case s of
        [] \<Rightarrow> Rejected Malformed
      | q # cs \<Rightarrow>
          if q \<noteq> CHR 0x22 then Rejected Malformed
          else
            (case scanstring cs of
               None \<Rightarrow> Rejected Malformed
             | Some (key, r1) \<Rightarrow>
                 if take 1 (skip_ws r1) \<noteq> '':'' then Rejected Malformed
                 else
                   (case scan_once env n depth (skip_ws (drop 1 (skip_ws r1))) of
                      Scanned v r2 \<Rightarrow>
                        if take 1 (skip_ws r2) = ''}'' then Scanned [(key, v)] (drop 1 (skip_ws r2))
                        else if take 1 (skip_ws r2) \<noteq> '','' then Rejected Malformed
                        else
                          (case parse_object_items env n depth (skip_ws (drop 1 (skip_ws r2))) of
                             Scanned pairs r3 \<Rightarrow> Scanned ((key, v) # pairs) r3
                           | Rejected why \<Rightarrow> Rejected why
                           | Exhausted \<Rightarrow> Exhausted)
                    | Rejected why \<Rightarrow> Rejected why
                    | Exhausted \<Rightarrow> Exhausted)))"
| "parse_array_items env 0 depth s = Exhausted"
| "parse_array_items env (Suc n) depth s =
     (case scan_once env n depth s of
        Scanned v r \<Rightarrow>
          if take 1 (skip_ws r) = '']'' then Scanned [v] (drop 1 (skip_ws r))
          else if take 1 (skip_ws r) \<noteq> '','' then Rejected Malformed
          else
            (case parse_array_items env n depth (skip_ws (drop 1 (skip_ws r))) of
               Scanned vs r' \<Rightarrow> Scanned (v # vs) r'
             | Rejected why \<Rightarrow> Rejected why
             | Exhausted \<Rightarrow> Exhausted)
      | Rejected why \<Rightarrow> Rejected why
      | Exhausted \<Rightarrow> Exhausted)"

text \<open>
  \<^verbatim>\<open>json.loads(doc)\<close>: skip the leading whitespace, read one value, skip the whitespace
  after it, and refuse whatever is left (\<^verbatim>\<open>Extra data\<close>). Two steps for every character
  and two more are enough for any text (\<open>json_loads_fuel\<close> below).
\<close>

definition json_loads :: "env \<Rightarrow> string \<Rightarrow> py_exn + pyval" where
  "json_loads env doc =
     (case scan_once env (2 * length doc + 2) (recursion_budget env) (skip_ws doc) of
        Scanned v r \<Rightarrow>
          if skip_ws r = [] then Inr v else Inl (ValueError (loads_error_str env doc))
      | Rejected TooDeep \<Rightarrow> Inl (RecursionError (loads_error_str env doc))
      | Rejected why \<Rightarrow> Inl (ValueError (loads_error_str env doc))
      | Exhausted \<Rightarrow> Inl FuelExhausted)"

section \<open>The handler: \<^verbatim>\<open>fetch_myntra_product\<close>\<close>

definition HEADERS :: "(string \<times> string) list" where
  "HEADERS =
     [(''User-Agent'',
       ''Mozilla/5.0 (Windows NT 10.0; Win64; x64) '' @
       ''AppleWebKit/537.36 (KHTML, like Gecko) '' @
       ''Chrome/122.0.6261.94 Safari/537.36''),
      (''accept'',
       ''text/html,application/xhtml+xml,application/xml;q=0.9,image/avif,image/webp,*/*;q=0.8''),
      (''accept-language'', ''en-US,en;q=0.9''),
      (''cache-control'', ''no-cache''),
      (''pragma'', ''no-cache''),
      (''sec-fetch-dest'', ''document''),
      (''sec-fetch-mode'', ''navigate''),
      (''sec-fetch-site'', ''none''),
      (''sec-fetch-user'', ''?1''),
      (''upgrade-insecure-requests'', ''1'')]"

text \<open>\<^verbatim>\<open>str(e)\<close> of an exception that carries its text.\<close>

fun exn_str :: "py_exn \<Rightarrow> string" where
  "exn_str (HTTPException status detail) = detail"
| "exn_str (RequestException msg) = msg"
| "exn_str (ValueError msg) = msg"
| "exn_str (RecursionError msg) = msg"
| "exn_str e = []"

text \<open>
  Lines 92 to 100: \<^verbatim>\<open>script_text.index("{")\<close> raises \<^verbatim>\<open>ValueError\<close> when there is no
  brace; that and every exception of the decoder are caught by the one \<^verbatim>\<open>except\<close>.
\<close>

definition str_index_from :: "char \<Rightarrow> string \<Rightarrow> py_exn + string" where
  "str_index_from c s =
     (if c \<in> set s then Inr (dropWhile (\<lambda>x. x \<noteq> c) s)
      else Inl (ValueError ''substring not found''))"

definition extract_json :: "env \<Rightarrow> string \<Rightarrow> py_exn + pyval" where
  "extract_json env script_text =
     (case bind (str_index_from (CHR ''{'') script_text) (json_loads env) of
        Inl e \<Rightarrow> Inl (HTTPException 500 (''Failed to parse product JSON: '' @ exn_str e))
      | Inr raw_data \<Rightarrow> Inr raw_data)"

text \<open>Lines 79 to 90: the first script whose text contains the marker.\<close>

definition locate_script :: "string list \<Rightarrow> py_exn + string" where
  "locate_script scripts =
     (case find (str_contains ''pdpData'') scripts of
        None \<Rightarrow> Inl (HTTPException 500 ''Unable to locate product data (pdpData) in page'')
      | Some script_text \<Rightarrow>
          if script_text = []
          then Inl (HTTPException 500 ''Unable to locate product data (pdpData) in page'')
          else Inr script_text)"

text \<open>Lines 79 to 160, on the texts of the script elements of the page.\<close>

definition extract_product :: "env \<Rightarrow> string list \<Rightarrow> py_exn + ProductResponse" where
  "extract_product env scripts =
     bind (locate_script scripts) (\<lambda>script_text.
     bind (extract_json env script_text) (map_fields env))"

text \<open>Lines 63 to 160, on the response of the site.\<close>

definition handle_response :: "env \<Rightarrow> response \<Rightarrow> py_exn + ProductResponse" where
  "handle_response env resp =
     (if status_code resp \<noteq> 200 then
        Inl (HTTPException (status_code resp)
               (''Myntra returned HTTP '' @ str_int (status_code resp)))
      else if str_contains ''Access Denied'' (body_text resp)
              \<or> str_contains (''You don'' @ [CHR 0x27] @ ''t have permission'') (body_text resp) then
        Inl (HTTPException 403
               ''Myntra blocked the request (Access Denied). Try again or use another proxy.'')
      else extract_product env (script_texts env (body_text resp)))"

text \<open>
  The whole function. The second component is the list of the URLs that were requested
  from the network, in order: empty as long as \<^verbatim>\<open>requests.get\<close> has not been called.
  Only a \<^verbatim>\<open>RequestException\<close> of the fetch is caught.
\<close>

definition fetch_myntra_product :: "env \<Rightarrow> string \<Rightarrow> (py_exn + ProductResponse) \<times> string list" where
  "fetch_myntra_product env url =
     (case urlparse_netloc env url of
        Inl e \<Rightarrow> (Inl e, [])
      | Inr netloc \<Rightarrow>
          if \<not> str_contains ''myntra.com'' netloc then
            (Inl (HTTPException 400 ''Only myntra.com product URLs are supported''), [])
          else
            (case requests_get env url HEADERS 10 of
               Inl (RequestException msg) \<Rightarrow>
                 (Inl (HTTPException 502 (''Network error while fetching Myntra page: '' @ msg)),
                  [url])
             | Inl e \<Rightarrow> (Inl e, [url])
             | Inr resp \<Rightarrow> (handle_response env resp, [url])))"

section \<open>Example environments\<close>

text \<open>
  Concrete collaborators, for evaluating the program on examples: a site that answers
  every request with an empty page, an interpreter with the default digit limit and
  room for a thousand nested containers, and a pydantic that coerces nothing.
\<close>

text \<open>
  \<^verbatim>\<open>urlparse(url).netloc\<close>, as \<^verbatim>\<open>urllib.parse.urlsplit\<close> finds it in an ASCII text. Leading
  control characters and spaces are stripped, tabs and line breaks are removed. When the
  text before the first colon starts with a letter and holds only letters, digits, \<^verbatim>\<open>+\<close>,
  \<^verbatim>\<open>-\<close> and \<^verbatim>\<open>.\<close>, it is the scheme and is cut off with the colon. There is a network
  location only when what remains starts with \<^verbatim>\<open>//\<close>: it goes from there to the first
  \<^verbatim>\<open>/\<close>, \<^verbatim>\<open>?\<close> or \<^verbatim>\<open>#\<close>. A bracket without its partner is refused with \<^verbatim>\<open>ValueError\<close>.
  The inspection of what stands between two brackets, and of characters outside ASCII,
  is not part of this example.
\<close>

definition clean_url :: "string \<Rightarrow> string" where
  "clean_url url =
     filter (\<lambda>c. c \<notin> set [CHR 0x09, CHR 0x0A, CHR 0x0D])
       (dropWhile (\<lambda>c. (of_char c :: nat) \<le> 32) url)"

definition is_alpha :: "char \<Rightarrow> bool" where
  "is_alpha c = (c \<in> set ''abcdefghijklmnopqrstuvwxyzABCDEFGHIJKLMNOPQRSTUVWXYZ'')"

definition is_scheme_char :: "char \<Rightarrow> bool" where
  "is_scheme_char c = (is_alpha c \<or> c \<in> set ''0123456789+-.'')"

definition after_scheme :: "string \<Rightarrow> string" where
  "after_scheme url =
     (let scheme = takeWhile (\<lambda>c. c \<noteq> CHR '':'') url
      in if CHR '':'' \<in> set url \<and> scheme \<noteq> [] \<and> is_alpha (hd url) \<and> list_all is_scheme_char scheme
         then drop (Suc (length scheme)) url
         else url)"

definition netloc_of_url :: "string \<Rightarrow> string" where
  "netloc_of_url url =
     (let rest = after_scheme (clean_url url)
      in if take 2 rest = ''//'' then takeWhile (\<lambda>c. c \<notin> set ''/?#'') (drop 2 rest) else [])"

definition parse_url :: "string \<Rightarrow> py_exn + string" where
  "parse_url url =
     (let netloc = netloc_of_url url
      in if (CHR ''['' \<in> set netloc) \<noteq> (CHR '']'' \<in> set netloc)
         then Inl (ValueError ''Invalid IPv6 URL'')
         else Inr netloc)"

text \<open>
  \<^verbatim>\<open>int\<close> on an ASCII \<^verbatim>\<open>str\<close>, with the digit limit given: the text without the whitespace
  around it is an optional sign and decimal digits, where single underscores may stand
  between two digits. The text of the \<^verbatim>\<open>ValueError\<close> is not read by the program and is
  left empty.
\<close>

definition is_space :: "char \<Rightarrow> bool" where
  "is_space c =
     (c \<in> set [CHR 0x09, CHR 0x0A, CHR 0x0B, CHR 0x0C, CHR 0x0D,
               CHR 0x1C, CHR 0x1D, CHR 0x1E, CHR 0x1F, CHR 0x20])"

definition strip :: "string \<Rightarrow> string" where
  "strip s = rev (dropWhile is_space (rev (dropWhile is_space s)))"

fun digit_groups :: "string \<Rightarrow> bool" where
  "digit_groups [] = False"
| "digit_groups [c] = is_digit c"
| "digit_groups (c # d # cs) =
     (is_digit c \<and> (if d = CHR ''_'' then digit_groups cs else digit_groups (d # cs)))"

definition digits_value :: "string \<Rightarrow> int" where
  "digits_value ds = foldl (\<lambda>acc d. 10 * acc + int (digit_val d)) 0 (filter is_digit ds)"

definition int_of_decimal :: "nat \<Rightarrow> string \<Rightarrow> py_exn + int" where
  "int_of_decimal limit s =
     (let t = strip s;
          sg = (if take 1 t = ''-'' \<or> take 1 t = ''+'' then take 1 t else []);
          body = drop (length sg) t
      in if \<not> digit_groups body then Inl (ValueError [])
         else if 0 < limit \<and> limit < length (filter is_digit body) then Inl (ValueError [])
         else Inr (if sg = ''-'' then - digits_value body else digits_value body))"

text \<open>
  \<^verbatim>\<open>float\<close> on a number literal of JSON with a fraction or an exponent: the decimal value
  of the literal, rounded to the nearest number of the binary64 format, to the one with
  the even significand when two are as near, and to an infinity from \<open>2 ^ 1024\<close> on.
\<close>

text \<open>The number of binary digits of a positive integer.\<close>

function bit_length :: "int \<Rightarrow> nat" where
  "bit_length n = (if n \<le> 0 then 0 else Suc (bit_length (n div 2)))"
  by pat_completeness auto
termination
  by (relation "measure nat") auto

declare bit_length.simps [simp del]

definition two_pow :: "int \<Rightarrow> rat" where
  "two_pow e = (if 0 \<le> e then 2 ^ nat e else 1 / 2 ^ nat (- e))"

text \<open>The exponent \<open>e\<close> with \<open>2 ^ e \<le> a < 2 ^ (e + 1)\<close>, for a positive \<open>a\<close>.\<close>

definition binade :: "rat \<Rightarrow> int" where
  "binade a =
     (let e = int (bit_length (fst (quotient_of a))) - int (bit_length (snd (quotient_of a)))
      in if two_pow e \<le> a then e else e - 1)"

definition round_half_even :: "rat \<Rightarrow> int" where
  "round_half_even x =
     (let f = \<lfloor>x\<rfloor>; r = x - of_int f
      in if r < 1 / 2 then f
         else if 1 / 2 < r then f + 1
         else if even f then f else f + 1)"

definition binary64 :: "rat \<Rightarrow> pyfloat" where
  "binary64 q =
     (if q = 0 then Finite 0
      else
        (let a = \<bar>q\<bar>;
             ulp = two_pow (max (binade a) (- 1022) - 52);
             m = of_int (round_half_even (a / ulp)) * ulp
         in if two_pow 1024 \<le> m then (if 0 < q then PosInf else NegInf)
            else Finite (if 0 < q then m else - m)))"

definition decimal_value :: "string \<Rightarrow> rat" where
  "decimal_value s =
     (let body = (if take 1 s = ''-'' then drop 1 s else s);
          whole = takeWhile is_digit body;
          r1 = dropWhile is_digit body;
          part = (if take 1 r1 = ''.'' then takeWhile is_digit (drop 1 r1) else []);
          r2 = (if take 1 r1 = ''.'' then dropWhile is_digit (drop 1 r1) else r1);
          ex = drop 1 r2;
          mantissa = of_int (digits_value (whole @ part)) / 10 ^ length part;
          v = (if take 1 ex = ''-'' then mantissa / 10 ^ nat (digits_value ex)
               else mantissa * 10 ^ nat (digits_value ex))
      in if take 1 s = ''-'' then - v else v)"

definition float_of_literal :: "string \<Rightarrow> pyfloat" where
  "float_of_literal s = binary64 (decimal_value s)"

definition no_coercion :: "pyval \<Rightarrow> string option" where
  "no_coercion v = None"

text \<open>
  \<^verbatim>\<open>str(e)\<close> of a \<^verbatim>\<open>JSONDecodeError\<close> with the message \<open>msg\<close> raised at the byte \<open>n\<close> of the
  text: the line, the column and the index are counted in characters.
\<close>

definition code_points :: "string \<Rightarrow> nat" where
  "code_points s = length (filter (\<lambda>c. \<not> is_continuation c) s)"

definition errmsg :: "string \<Rightarrow> string \<Rightarrow> nat \<Rightarrow> string" where
  "errmsg msg doc n =
     msg @ '': line '' @ str_nat (Suc (count_list (take n doc) (CHR 0x0A)))
       @ '' column ''
       @ str_nat (Suc (code_points (takeWhile (\<lambda>c. c \<noteq> CHR 0x0A) (rev (take n doc)))))
       @ '' (char '' @ str_nat (code_points (take n doc)) @ '')''"

text \<open>
  The text of the error of \<^verbatim>\<open>json.loads\<close> for a document that holds a value and then
  something else, which is the failure that the examples meet: \<^verbatim>\<open>Extra data\<close>, at the
  first character after the value that is not whitespace. For the other failures, whose
  text depends on where inside the value the scanner stopped, this example gives no text.
\<close>

definition decode_error_str :: "env \<Rightarrow> string \<Rightarrow> string" where
  "decode_error_str env doc =
     (case scan_once env (2 * length doc + 2) (recursion_budget env) (skip_ws doc) of
        Scanned v r \<Rightarrow> errmsg ''Extra data'' doc (length doc - length (skip_ws r))
      | Rejected why \<Rightarrow> []
      | Exhausted \<Rightarrow> [])"

definition no_scripts :: "string \<Rightarrow> string list" where
  "no_scripts html = []"

definition empty_page :: "string \<Rightarrow> (string \<times> string) list \<Rightarrow> nat \<Rightarrow> py_exn + response" where
  "empty_page url headers timeout = Inr \<lparr>status_code = 200, body_text = []\<rparr>"

text \<open>The interpreter without the texts of the decoder's errors, and with them.\<close>

definition quiet_env :: env where
  "quiet_env =
     \<lparr>urlparse_netloc = parse_url, requests_get = empty_page, script_texts = no_scripts,
      float_of_str = float_of_literal, int_of_str = int_of_decimal 4300,
      int_max_str_digits = 4300, recursion_budget = 1000, loads_error_str = (\<lambda>doc. []),
      coerce_str = no_coercion\<rparr>"

definition plain_env :: env where
  "plain_env =
     \<lparr>urlparse_netloc = parse_url, requests_get = empty_page, script_texts = no_scripts,
      float_of_str = float_of_literal, int_of_str = int_of_decimal 4300,
      int_max_str_digits = 4300, recursion_budget = 1000,
      loads_error_str = decode_error_str quiet_env, coerce_str = no_coercion\<rparr>"

definition page_with_script :: "string \<Rightarrow> env" where
  "page_with_script script = plain_env\<lparr>script_texts := (\<lambda>html. [script])\<rparr>"

definition site_answering :: "response \<Rightarrow> env" where
  "site_answering resp = plain_env\<lparr>requests_get := (\<lambda>url headers timeout. Inr resp)\<rparr>"

section \<open>Notions the properties are stated with\<close>

text \<open>A field that is present and truthy: what a step of a fallback chain tests.\<close>

definition field_truthy :: "pyval \<Rightarrow> string \<Rightarrow> bool" where
  "field_truthy v k = (case py_get v k PyNone of Inl e \<Rightarrow> False | Inr x \<Rightarrow> truthy x)"

text \<open>\<^verbatim>\<open>isinstance(v, dict)\<close>.\<close>

fun is_dict :: "pyval \<Rightarrow> bool" where
  "is_dict (PyDict kvs) = True"
| "is_dict v = False"

text \<open>
  The host of a network location, as \<^verbatim>\<open>urllib\<close> reads it for the \<^verbatim>\<open>hostname\<close> property
  (before lowering the case): what follows the last \<^verbatim>\<open>@\<close>, up to the port, or between
  the brackets of an IPv6 literal.
\<close>

definition netloc_host :: "string \<Rightarrow> string" where
  "netloc_host netloc =
     (let hostinfo = rev (takeWhile (\<lambda>c. c \<noteq> CHR ''@'') (rev netloc))
      in if CHR ''['' \<in> set hostinfo
         then takeWhile (\<lambda>c. c \<noteq> CHR '']'') (drop 1 (dropWhile (\<lambda>c. c \<noteq> CHR ''['') hostinfo))
         else takeWhile (\<lambda>c. c \<noteq> CHR '':'') hostinfo)"

text \<open>
  A price source that cannot come out negative: a number that is not below zero, or a
  value that is no number and no string (such a value is falsy or makes \<^verbatim>\<open>int\<close> raise).
\<close>

definition nonneg_price :: "pyval \<Rightarrow> bool" where
  "nonneg_price v =
     (case v of
        PyInt i \<Rightarrow> 0 \<le> i
      | PyFloat f \<Rightarrow> (case f of Finite q \<Rightarrow> 0 \<le> q | _ \<Rightarrow> True)
      | PyStr s \<Rightarrow> False
      | _ \<Rightarrow> True)"

definition field_nonneg :: "pyval \<Rightarrow> string \<Rightarrow> bool" where
  "field_nonneg v k = (case py_get v k PyNone of Inl e \<Rightarrow> True | Inr x \<Rightarrow> nonneg_price x)"

text \<open>
  A text that cannot continue a number: it is not empty and does not start with a digit,
  a point or an exponent mark. After a number, that is what keeps the number's match
  the same when the text goes on.
\<close>

definition ends_number :: "string \<Rightarrow> bool" where
  "ends_number r = (r \<noteq> [] \<and> hd r \<notin> set ''0123456789.eE'')"

text \<open>A number must be followed by such a text; any other value may be followed by anything.\<close>

fun value_ends :: "pyval \<Rightarrow> string \<Rightarrow> bool" where
  "value_ends (PyInt i) r = ends_number r"
| "value_ends (PyFloat f) r = ends_number r"
| "value_ends v r = True"

text \<open>The part of the scanner that reads a constant or a number.\<close>

definition scan_atom :: "env \<Rightarrow> string \<Rightarrow> pyval scanned" where
  "scan_atom env s =
     (if take 4 s = ''null'' then Scanned PyNone (drop 4 s)
      else if take 4 s = ''true'' then Scanned (PyBool True) (drop 4 s)
      else if take 5 s = ''false'' then Scanned (PyBool False) (drop 5 s)
      else
        (case match_number s of
           Some (integer, fraction, exponent, r) \<Rightarrow>
             if fraction @ exponent \<noteq> []
             then Scanned (PyFloat (float_of_str env (integer @ fraction @ exponent))) r
             else
               (case parse_int env integer of
                  None \<Rightarrow> Rejected TooManyDigits
                | Some i \<Rightarrow> Scanned (PyInt i) r)
         | None \<Rightarrow>
             if take 3 s = ''NaN'' then Scanned (PyFloat NaN) (drop 3 s)
             else if take 8 s = ''Infinity'' then Scanned (PyFloat PosInf) (drop 8 s)
             else if take 9 s = ''-Infinity'' then Scanned (PyFloat NegInf) (drop 9 s)
             else Rejected Malformed))"


section \<open>Properties of the field mapper\<close>

lemmas url_defs =
  parse_url_def netloc_of_url_def after_scheme_def clean_url_def is_alpha_def
  is_scheme_char_def Let_def

lemmas mapper_defs =
  map_fields_def effective_record_def map_record_def map_title_def map_primary_image_def
  map_price_info_def map_original_price_def map_discounted_price_def map_in_stock_def
  ProductResponse_init_def str_field_def bind_def py_or_def

lemma bind_Inr: "bind m f = Inr r \<Longrightarrow> \<exists>v. m = Inr v \<and> f v = Inr r"
  by (cases m) (simp_all add: bind_def)

text \<open>
  Claim C7. When the decoded record is the empty object, the field mapper succeeds and
  returns the title "Unknown Product", an empty image, both prices 0 and in stock.
\<close>

theorem empty_object_defaults:
  "map_fields env (PyDict []) =
     Inr \<lparr>title = ''Unknown Product'', primary_image = [], original_price = 0,
          discounted_price = 0, in_stock = True\<rparr>"
  by (simp add: mapper_defs)

text \<open>
  Claim C4, as the code has it. The mapper descends into the value of the key
  \<^verbatim>\<open>pdpData\<close> only when that value is truthy; when the key is absent or its value is falsy
  (\<^verbatim>\<open>None\<close>, an empty object, zero, an empty string or list, \<^verbatim>\<open>False\<close>) the whole decoded
  object is the effective record.
\<close>

theorem effective_record_descends_when_truthy:
  "effective_record (PyDict kvs) =
     Inr (case map_of kvs ''pdpData'' of
            None \<Rightarrow> PyDict kvs
          | Some v \<Rightarrow> if truthy v then v else PyDict kvs)
   \<and> map_fields env (PyDict kvs) =
     map_record env (case map_of kvs ''pdpData'' of
            None \<Rightarrow> PyDict kvs
          | Some v \<Rightarrow> if truthy v then v else PyDict kvs)"
  by (simp add: map_fields_def effective_record_def bind_def py_or_def split: option.splits)

text \<open>
  Claim C4 as stated fails: with an empty object under \<^verbatim>\<open>pdpData\<close> the mapper does not
  descend. It reads the name from the whole object, where descending into the empty
  object would have given the default title.
\<close>

theorem falsy_pdpData_is_not_descended:
  "effective_record (PyDict [(''pdpData'', PyDict []), (''name'', PyStr ''Shoe'')])
     \<noteq> Inr (PyDict [])
   \<and> map_fields plain_env (PyDict [(''pdpData'', PyDict []), (''name'', PyStr ''Shoe'')])
     = Inr \<lparr>title = ''Shoe'', primary_image = [], original_price = 0,
            discounted_price = 0, in_stock = True\<rparr>
   \<and> map_record plain_env (PyDict [])
     = Inr \<lparr>title = ''Unknown Product'', primary_image = [], original_price = 0,
            discounted_price = 0, in_stock = True\<rparr>"
  by (simp add: mapper_defs)

lemma discounted_falls_back:
  assumes "map_discounted_price data price_info original = Inr discounted"
    and "\<not> field_truthy data ''discountedPrice''"
    and "\<not> field_truthy price_info ''discountedPrice''"
    and "\<not> field_truthy price_info ''effective''"
  shows "discounted = original"
  using assms
  by (auto simp: map_discounted_price_def field_truthy_def bind_def py_or_def
      split: sum.splits if_splits)

lemma init_prices:
  "ProductResponse_init env t img oi di stock = Inr r \<Longrightarrow>
     original_price r = oi \<and> discounted_price r = di"
  by (auto simp: ProductResponse_init_def split: sum.splits prod.splits)

text \<open>What a successful run of the mapper went through.\<close>

lemma map_record_Inr:
  assumes "map_record env data = Inr r"
  shows "\<exists>t img price_info original discounted stock ov dv oi di.
           map_title data = Inr t \<and> map_primary_image data = Inr img \<and>
           map_price_info data = Inr price_info \<and>
           map_original_price data price_info = Inr original \<and>
           map_discounted_price data price_info original = Inr discounted \<and>
           map_in_stock data = Inr stock \<and>
           py_or original (Inr (PyInt 0)) = Inr ov \<and> py_int env ov = Inr oi \<and>
           py_or discounted (Inr (PyInt 0)) = Inr dv \<and> py_int env dv = Inr di \<and>
           ProductResponse_init env t img oi di stock = Inr r"
  using assms unfolding map_record_def
  by (auto dest!: bind_Inr)

text \<open>
  Claim C6. For every record on which the mapper succeeds and in which no discount field
  is truthy (neither the top-level \<^verbatim>\<open>discountedPrice\<close> nor \<^verbatim>\<open>discountedPrice\<close> or
  \<^verbatim>\<open>effective\<close> of the price object), the returned discounted price equals the returned
  original price.
\<close>

theorem discount_defaults_to_original:
  assumes "map_record env data = Inr r"
    and "map_price_info data = Inr price_info"
    and "\<not> field_truthy data ''discountedPrice''"
    and "\<not> field_truthy price_info ''discountedPrice''"
    and "\<not> field_truthy price_info ''effective''"
  shows "discounted_price r = original_price r"
proof -
  from map_record_Inr[OF assms(1)] obtain t img pinfo original discounted stock ov dv oi di where
    p: "map_price_info data = Inr pinfo"
    and d: "map_discounted_price data pinfo original = Inr discounted"
    and oi: "py_or original (Inr (PyInt 0)) = Inr ov" "py_int env ov = Inr oi"
    and di: "py_or discounted (Inr (PyInt 0)) = Inr dv" "py_int env dv = Inr di"
    and r: "ProductResponse_init env t img oi di stock = Inr r"
    by blast
  from p assms(2) have "pinfo = price_info" by simp
  with d assms(3,4,5) have "discounted = original" by (auto intro: discounted_falls_back)
  with oi di have "oi = di" by simp
  with init_prices[OF r] show ?thesis by simp
qed

text \<open>Claim C6 at a record with a marked price of 999 and no discount field.\<close>

theorem discount_defaults_to_original_witness:
  "map_record plain_env (PyDict [(''price'', PyDict [(''marked'', PyInt 999)])]) =
     Inr \<lparr>title = ''Unknown Product'', primary_image = [], original_price = 999,
          discounted_price = 999, in_stock = True\<rparr>
   \<and> discounted_price \<lparr>title = ''Unknown Product'', primary_image = [], original_price = 999,
          discounted_price = 999, in_stock = True\<rparr> = 999"
proof -
  let ?data = "PyDict [(''price'', PyDict [(''marked'', PyInt 999)])]"
  let ?r = "\<lparr>title = ''Unknown Product'', primary_image = [], original_price = 999,
          discounted_price = 999, in_stock = True\<rparr>"
  have r: "map_record plain_env ?data = Inr ?r"
    by (simp add: mapper_defs)
  have p: "map_price_info ?data = Inr (PyDict [(''marked'', PyInt 999)])"
    by (simp add: mapper_defs)
  have 1: "\<not> field_truthy ?data ''discountedPrice''"
    by (simp add: field_truthy_def)
  have 2: "\<not> field_truthy (PyDict [(''marked'', PyInt 999)]) ''discountedPrice''"
    by (simp add: field_truthy_def)
  have 3: "\<not> field_truthy (PyDict [(''marked'', PyInt 999)]) ''effective''"
    by (simp add: field_truthy_def)
  from discount_defaults_to_original[OF r p 1 2 3] r show ?thesis by simp
qed

lemma original_nonneg:
  assumes "map_original_price data price_info = Inr original"
    and "field_nonneg data ''mrp''" "field_nonneg price_info ''mrp''"
    and "field_nonneg price_info ''marked''"
  shows "nonneg_price original"
  using assms
  by (auto simp: map_original_price_def field_nonneg_def bind_def py_or_def nonneg_price_def
      split: sum.splits if_splits)

lemma discounted_nonneg:
  assumes "map_discounted_price data price_info original = Inr discounted"
    and "nonneg_price original"
    and "field_nonneg data ''discountedPrice''" "field_nonneg price_info ''discountedPrice''"
    and "field_nonneg price_info ''effective''"
  shows "nonneg_price discounted"
  using assms
  by (auto simp: map_discounted_price_def field_nonneg_def bind_def py_or_def
      split: sum.splits if_splits)

lemma py_int_nonneg:
  assumes "py_or v (Inr (PyInt 0)) = Inr ov" "py_int env ov = Inr i" "nonneg_price v"
  shows "0 \<le> i"
proof (cases "truthy v")
  case False
  with assms show ?thesis by (auto simp: py_or_def)
next
  case True
  with assms(1) have "ov = v" by (simp add: py_or_def)
  with assms(2,3) show ?thesis
    by (cases v) (auto simp: nonneg_price_def trunc_def split: pyfloat.splits if_splits)
qed

text \<open>
  Claim C3, as the code has it. For every record on which the mapper succeeds, the two
  prices are integers, and they are not negative when no price source field (\<^verbatim>\<open>mrp\<close> and
  \<^verbatim>\<open>discountedPrice\<close> of the record; \<^verbatim>\<open>mrp\<close>, \<^verbatim>\<open>marked\<close>, \<^verbatim>\<open>discountedPrice\<close> and
  \<^verbatim>\<open>effective\<close> of its price object) holds a negative number or a string.
\<close>

theorem prices_nonnegative_for_nonnegative_sources:
  assumes "map_record env data = Inr r"
    and "map_price_info data = Inr price_info"
    and "field_nonneg data ''mrp''" "field_nonneg price_info ''mrp''"
    and "field_nonneg price_info ''marked''"
    and "field_nonneg data ''discountedPrice''" "field_nonneg price_info ''discountedPrice''"
    and "field_nonneg price_info ''effective''"
  shows "0 \<le> original_price r \<and> 0 \<le> discounted_price r"
proof -
  from map_record_Inr[OF assms(1)] obtain t img pinfo original discounted stock ov dv oi di where
    p: "map_price_info data = Inr pinfo"
    and o: "map_original_price data pinfo = Inr original"
    and d: "map_discounted_price data pinfo original = Inr discounted"
    and oi: "py_or original (Inr (PyInt 0)) = Inr ov" "py_int env ov = Inr oi"
    and di: "py_or discounted (Inr (PyInt 0)) = Inr dv" "py_int env dv = Inr di"
    and r: "ProductResponse_init env t img oi di stock = Inr r"
    by blast
  from p assms(2) have [simp]: "pinfo = price_info" by simp
  from o assms(3-5) have no: "nonneg_price original" by (auto intro: original_nonneg)
  with d assms(6-8) have nd: "nonneg_price discounted" by (auto intro: discounted_nonneg)
  from py_int_nonneg[OF oi no] py_int_nonneg[OF di nd] init_prices[OF r]
  show ?thesis by simp
qed

text \<open>Claim C3 at a record with a price of 1999 discounted to 1499.\<close>

theorem prices_nonnegative_for_nonnegative_sources_witness:
  "map_record plain_env
     (PyDict [(''mrp'', PyInt 1999), (''price'', PyDict [(''discountedPrice'', PyInt 1499)])]) =
     Inr \<lparr>title = ''Unknown Product'', primary_image = [], original_price = 1999,
          discounted_price = 1499, in_stock = True\<rparr>
   \<and> (0::int) \<le> 1999 \<and> (0::int) \<le> 1499"
proof -
  let ?p = "PyDict [(''discountedPrice'', PyInt 1499)]"
  let ?data = "PyDict [(''mrp'', PyInt 1999), (''price'', ?p)]"
  let ?r = "\<lparr>title = ''Unknown Product'', primary_image = [], original_price = 1999,
          discounted_price = 1499, in_stock = True\<rparr>"
  have r: "map_record plain_env ?data = Inr ?r"
    by (simp add: mapper_defs)
  have p: "map_price_info ?data = Inr ?p"
    by (simp add: mapper_defs)
  have f: "field_nonneg ?data ''mrp''" "field_nonneg ?p ''mrp''" "field_nonneg ?p ''marked''"
    "field_nonneg ?data ''discountedPrice''" "field_nonneg ?p ''discountedPrice''"
    "field_nonneg ?p ''effective''"
    by (simp_all add: field_nonneg_def nonneg_price_def)
  from prices_nonnegative_for_nonnegative_sources[OF r p f] r show ?thesis by simp
qed

text \<open>
  Claim C3 as stated fails: a negative marked price is returned as it is, for both
  prices; nothing clamps it.
\<close>

theorem negative_price_is_returned:
  "map_fields plain_env (PyDict [(''mrp'', PyInt (- 5))]) =
     Inr \<lparr>title = ''Unknown Product'', primary_image = [], original_price = - 5,
          discounted_price = - 5, in_stock = True\<rparr>
   \<and> original_price \<lparr>title = ''Unknown Product'', primary_image = [], original_price = - 5,
          discounted_price = - 5, in_stock = True\<rparr> < 0"
  by (simp add: mapper_defs)

section \<open>Properties of the handler\<close>

lemma str_int_403: "str_int 403 = ''403''"
  by (simp add: str_int_def str_nat.simps digit_char_def)

text \<open>
  Claim C1, as the code has it. When the fetch returns a response with status 403, the
  handler fails with the classification of any status other than 200: status 403 and the
  message "Myntra returned HTTP 403", whatever the body says. The test of the body for a
  blocking phrase is reached only by a response with status 200, which then fails with
  status 403 and the message that names the block.
\<close>

theorem status_403_is_upstream_http_error:
  assumes "urlparse_netloc env url = Inr netloc"
    and "str_contains ''myntra.com'' netloc"
    and "requests_get env url HEADERS 10 = Inr resp"
  shows "(status_code resp = 403 \<longrightarrow>
            fst (fetch_myntra_product env url) =
              Inl (HTTPException 403 ''Myntra returned HTTP 403''))
       \<and> (status_code resp = 200 \<and> str_contains ''Access Denied'' (body_text resp) \<longrightarrow>
            fst (fetch_myntra_product env url) =
              Inl (HTTPException 403
                ''Myntra blocked the request (Access Denied). Try again or use another proxy.''))"
  using assms by (simp add: fetch_myntra_product_def handle_response_def str_int_403)

text \<open>Claim C1 at a site that answers 403, and at one that answers 200, both with the phrase.\<close>

theorem status_403_is_upstream_http_error_witness:
  "fst (fetch_myntra_product
          (site_answering \<lparr>status_code = 403, body_text = ''<h1>Access Denied</h1>''\<rparr>)
          ''https://www.myntra.com/p'') =
     Inl (HTTPException 403 ''Myntra returned HTTP 403'')
   \<and> fst (fetch_myntra_product
          (site_answering \<lparr>status_code = 200, body_text = ''<h1>Access Denied</h1>''\<rparr>)
          ''https://www.myntra.com/p'') =
     Inl (HTTPException 403
       ''Myntra blocked the request (Access Denied). Try again or use another proxy.'')"
proof -
  let ?url = "''https://www.myntra.com/p''"
  let ?r403 = "\<lparr>status_code = 403, body_text = ''<h1>Access Denied</h1>''\<rparr>"
  let ?r200 = "\<lparr>status_code = 200, body_text = ''<h1>Access Denied</h1>''\<rparr>"
  have n: "urlparse_netloc (site_answering r) ?url = Inr ''www.myntra.com''" for r
    by (simp add: site_answering_def plain_env_def url_defs)
  have c: "str_contains ''myntra.com'' ''www.myntra.com''"
    by simp
  have g: "requests_get (site_answering r) ?url HEADERS 10 = Inr r" for r
    by (simp add: site_answering_def)
  from status_403_is_upstream_http_error[OF n c g, of ?r403]
    status_403_is_upstream_http_error[OF n c g, of ?r200]
  show ?thesis by simp
qed

text \<open>
  Claim C1 as stated fails: a response with status 403 whose body contains "Access
  Denied" is not reported as a blocked request but with the message of the generic
  classification; the status check of line 63 comes before the test of the body.
\<close>

theorem access_denied_403_is_not_reported_as_blocked:
  "fst (fetch_myntra_product
          (site_answering \<lparr>status_code = 403, body_text = ''<h1>Access Denied</h1>''\<rparr>)
          ''https://www.myntra.com/p'') =
     Inl (HTTPException 403 ''Myntra returned HTTP 403'')
   \<and> fst (fetch_myntra_product
          (site_answering \<lparr>status_code = 403, body_text = ''<h1>Access Denied</h1>''\<rparr>)
          ''https://www.myntra.com/p'') \<noteq>
     Inl (HTTPException 403
       ''Myntra blocked the request (Access Denied). Try again or use another proxy.'')"
  by (simp add: fetch_myntra_product_def handle_response_def str_int_403 site_answering_def
      plain_env_def url_defs)

text \<open>
  What the test of line 48 establishes: for every URL whose network location (the
  \<^verbatim>\<open>netloc\<close> of \<^verbatim>\<open>urlparse\<close>: user information, host and port) does not contain
  "myntra.com", the handler fails with status 400 and no request has been sent.
\<close>

lemma unsupported_netloc_fails_before_fetch:
  assumes "urlparse_netloc env url = Inr netloc"
    and "\<not> str_contains ''myntra.com'' netloc"
  shows "fetch_myntra_product env url =
     (Inl (HTTPException 400 ''Only myntra.com product URLs are supported''), [])"
  using assms by (simp add: fetch_myntra_product_def)

text \<open>The same at a URL of another site.\<close>

lemma other_site_fails_before_fetch:
  "fetch_myntra_product plain_env ''https://example.com/p'' =
     (Inl (HTTPException 400 ''Only myntra.com product URLs are supported''), [])"
proof -
  have n: "urlparse_netloc plain_env ''https://example.com/p'' = Inr ''example.com''"
    by (simp add: plain_env_def url_defs)
  have c: "\<not> str_contains ''myntra.com'' ''example.com''"
    by simp
  from unsupported_netloc_fails_before_fetch[OF n c] show ?thesis .
qed

text \<open>
  Claim C8 does not hold of the code. The comment of line 46 says that only myntra.com
  is allowed, and the detail of the 400 says that only myntra.com product URLs are
  supported; but line 48 searches the whole network location, where the host should be
  searched. The host of this URL is \<^verbatim>\<open>evil.example\<close>, which does not contain
  "myntra.com"; "myntra.com" is its user information. The validation passes and the URL
  is requested: the handler fails only later, on the page it received, and not with
  status 400.
\<close>

theorem userinfo_passes_validation:
  "netloc_host (netloc_of_url ''https://myntra.com@evil.example/p'') = ''evil.example''
   \<and> \<not> str_contains ''myntra.com'' ''evil.example''
   \<and> fetch_myntra_product plain_env ''https://myntra.com@evil.example/p'' =
       (Inl (HTTPException 500 ''Unable to locate product data (pdpData) in page''),
        [''https://myntra.com@evil.example/p''])"
  by (simp add: netloc_host_def url_defs fetch_myntra_product_def plain_env_def
     empty_page_def handle_response_def extract_product_def locate_script_def
     no_scripts_def bind_def)

text \<open>
  Claim C10. If the first script whose text contains "pdpData" has no opening brace, the
  pipeline fails with status 500 and the message of a parse failure, "Failed to parse
  product JSON: substring not found", not with the message of a missing data blob.
\<close>

theorem missing_brace_is_parse_error:
  assumes "find (str_contains ''pdpData'') scripts = Some script_text"
    and "CHR ''{'' \<notin> set script_text"
  shows "extract_product env scripts =
     Inl (HTTPException 500 ''Failed to parse product JSON: substring not found'')"
proof -
  from assms(1) have "str_contains ''pdpData'' script_text"
    by (auto simp: find_Some_iff)
  then have "script_text \<noteq> []" by auto
  with assms show ?thesis
    by (simp add: extract_product_def locate_script_def bind_def extract_json_def
        str_index_from_def)
qed

text \<open>Claim C10 at a page whose second script assigns a number to the marker.\<close>

theorem missing_brace_is_parse_error_witness:
  "extract_product plain_env [''var x = {}'', ''var pdpData = 1;''] =
     Inl (HTTPException 500 ''Failed to parse product JSON: substring not found'')"
proof -
  have f: "find (str_contains ''pdpData'') [''var x = {}'', ''var pdpData = 1;'']
             = Some ''var pdpData = 1;''"
    by simp
  have b: "CHR ''{'' \<notin> set ''var pdpData = 1;''"
    by simp
  from missing_brace_is_parse_error[OF f b] show ?thesis .
qed

section \<open>Evaluating the decoder\<close>

text \<open>
  The equations of the scanner for a step counter written as a numeral and a text that
  is not empty: what the simplifier needs to run the decoder on a literal.
\<close>

lemmas scan_once_numeral =
  scan_once.simps(2)[of _ "pred_numeral k" _ "c # cs", folded numeral_eq_Suc]
  parse_object_items.simps(2)[of _ "pred_numeral k" _ "c # cs", folded numeral_eq_Suc]
  parse_array_items.simps(2)[of _ "pred_numeral k" _ "c # cs", folded numeral_eq_Suc]
  for k c cs

lemmas decoder_defs = scan_once_numeral skip_ws_def is_ws_def match_number_def
      match_integer_def match_frac_def match_exp_def is_digit_def dict_of_pairs_def
      backslash_def Let_def

lemma parse_int_within_limit:
  assumes "int_max_str_digits env = 0 \<or> length (filter is_digit integer) \<le> int_max_str_digits env"
  shows "parse_int env integer =
     Some (if take 1 integer = ''-''
           then - foldl (\<lambda>acc d. 10 * acc + int (digit_val d)) 0 (filter is_digit integer)
           else foldl (\<lambda>acc d. 10 * acc + int (digit_val d)) 0 (filter is_digit integer))"
  using assms by (auto simp: parse_int_def Let_def)

text \<open>The object of the scenario of claim C5, decoded.\<close>

lemma shoe_decoded:
  assumes "2 \<le> recursion_budget env"
    and "int_max_str_digits env = 0 \<or> 4 \<le> int_max_str_digits env"
  shows "json_loads env ''{\"name\":\"Shoe\",\"mrp\":2000,\"price\":{\"effective\":1500},\"flags\":{\"outOfStock\":true}}''
   = Inr (PyDict
       [(''name'', PyStr ''Shoe''), (''mrp'', PyInt 2000),
        (''price'', PyDict [(''effective'', PyInt 1500)]),
        (''flags'', PyDict [(''outOfStock'', PyBool True)])])"
proof -
  have d: "recursion_budget env \<noteq> 0" "\<not> recursion_budget env \<le> Suc 0"
    using assms(1) by auto
  have p: "parse_int env ''2000'' = Some 2000" "parse_int env ''1500'' = Some 1500"
    using assms(2) by (auto simp: parse_int_within_limit is_digit_def digit_val_def)
  show ?thesis
    by (simp add: json_loads_def decoder_defs d p)
qed

text \<open>
  Claim C5. When the first script that contains the marker is
  \<^verbatim>\<open>var pdpData={"name":"Shoe","mrp":2000,"price":{"effective":1500},"flags":{"outOfStock":true}}\<close>,
  locating, decoding and mapping succeed and return the title "Shoe", an empty image,
  the prices 2000 and 1500 and not in stock. The interpreter must allow two levels of
  nesting and integers of four digits, as every interpreter does.
\<close>

theorem shoe_scenario:
  assumes "find (str_contains ''pdpData'') scripts =
     Some ''var pdpData={\"name\":\"Shoe\",\"mrp\":2000,\"price\":{\"effective\":1500},\"flags\":{\"outOfStock\":true}}''"
    and "2 \<le> recursion_budget env"
    and "int_max_str_digits env = 0 \<or> 4 \<le> int_max_str_digits env"
  shows "extract_product env scripts =
     Inr \<lparr>title = ''Shoe'', primary_image = [], original_price = 2000,
          discounted_price = 1500, in_stock = False\<rparr>"
proof -
  have "extract_json env ''var pdpData={\"name\":\"Shoe\",\"mrp\":2000,\"price\":{\"effective\":1500},\"flags\":{\"outOfStock\":true}}''
    = Inr (PyDict
       [(''name'', PyStr ''Shoe''), (''mrp'', PyInt 2000),
        (''price'', PyDict [(''effective'', PyInt 1500)]),
        (''flags'', PyDict [(''outOfStock'', PyBool True)])])"
    by (simp add: extract_json_def str_index_from_def bind_def shoe_decoded[OF assms(2,3)])
  then show ?thesis
    using assms(1)
    by (simp add: extract_product_def locate_script_def mapper_defs)
qed

text \<open>Claim C5 on a page with another script before the one with the data.\<close>

theorem shoe_scenario_witness:
  "extract_product plain_env
     [''window.dataLayer = []'',
      ''var pdpData={\"name\":\"Shoe\",\"mrp\":2000,\"price\":{\"effective\":1500},\"flags\":{\"outOfStock\":true}}''] =
     Inr \<lparr>title = ''Shoe'', primary_image = [], original_price = 2000,
          discounted_price = 1500, in_stock = False\<rparr>"
proof -
  have f: "find (str_contains ''pdpData'')
     [''window.dataLayer = []'',
      ''var pdpData={\"name\":\"Shoe\",\"mrp\":2000,\"price\":{\"effective\":1500},\"flags\":{\"outOfStock\":true}}''] =
     Some ''var pdpData={\"name\":\"Shoe\",\"mrp\":2000,\"price\":{\"effective\":1500},\"flags\":{\"outOfStock\":true}}''"
    by simp
  have b: "2 \<le> recursion_budget plain_env"
    by (simp add: plain_env_def)
  have l: "int_max_str_digits plain_env = 0 \<or> 4 \<le> int_max_str_digits plain_env"
    by (simp add: plain_env_def)
  from shoe_scenario[OF f b l] show ?thesis .
qed

section \<open>Errors of the mapper in the handler\<close>

lemma title_error: "map_title data = Inl e \<Longrightarrow> e = AttributeError"
  by (cases data)
     (auto simp: map_title_def bind_def py_or_def split: if_splits option.splits sum.splits
        elim!: py_get.elims)

lemma non_dict_record: "\<not> is_dict data \<Longrightarrow> map_record env data = Inl AttributeError"
  by (cases data) (simp_all add: map_record_def map_title_def bind_def)

lemma non_dict_album:
  assumes "data = PyDict kvs" "map_of kvs ''media'' = Some (PyDict m)"
    "map_of m ''albums'' = Some (PyList (album # albums))" "\<not> is_dict album"
  shows "map_primary_image data = Inl AttributeError"
  using assms
  by (cases album) (auto simp: map_primary_image_def bind_def py_or_def)

lemma non_dict_image:
  assumes "data = PyDict kvs" "map_of kvs ''media'' = Some (PyDict m)"
    "map_of m ''albums'' = Some (PyList (PyDict a # albums))"
    "map_of a ''images'' = Some (PyList (img # imgs))" "\<not> is_dict img"
  shows "map_primary_image data = Inl AttributeError"
  using assms
  by (cases img) (auto simp: map_primary_image_def bind_def py_or_def)

lemma image_error_escapes:
  assumes "map_primary_image data = Inl AttributeError"
  shows "map_record env data = Inl AttributeError"
proof (cases "map_title data")
  case (Inl e)
  with title_error[OF Inl] show ?thesis by (simp add: map_record_def bind_def)
next
  case (Inr t)
  with assms show ?thesis by (simp add: map_record_def bind_def)
qed

lemma non_mapping_raises:
  assumes "\<not> is_dict data
       \<or> (\<exists>kvs m album albums.
            data = PyDict kvs \<and> map_of kvs ''media'' = Some (PyDict m) \<and>
            map_of m ''albums'' = Some (PyList (album # albums)) \<and> \<not> is_dict album)
       \<or> (\<exists>kvs m a albums img imgs.
            data = PyDict kvs \<and> map_of kvs ''media'' = Some (PyDict m) \<and>
            map_of m ''albums'' = Some (PyList (PyDict a # albums)) \<and>
            map_of a ''images'' = Some (PyList (img # imgs)) \<and> \<not> is_dict img)"
  shows "map_record env data = Inl AttributeError"
  using assms
  by (auto intro: non_dict_record image_error_escapes non_dict_album non_dict_image)

text \<open>
  Claim C2, as the code has it. When the page is fetched and decoded and the mapper
  raises on the decoded value, as it does when a value that it traverses is not shaped
  as it expects (\<open>non_mapping_raises\<close> for an effective record, a first album or a first
  image of that album that is not a mapping), the exception is not caught, whatever it
  is: it leaves \<^verbatim>\<open>fetch_myntra_product\<close> as it is, after the one request, and the handler
  gives it neither a classification nor a status.
\<close>

theorem structural_error_escapes_unclassified:
  assumes "urlparse_netloc env url = Inr netloc"
    and "str_contains ''myntra.com'' netloc"
    and "requests_get env url HEADERS 10 = Inr resp"
    and "status_code resp = 200"
    and "\<not> str_contains ''Access Denied'' (body_text resp)"
    and "\<not> str_contains (''You don'' @ [CHR 0x27] @ ''t have permission'') (body_text resp)"
    and "locate_script (script_texts env (body_text resp)) = Inr script_text"
    and "extract_json env script_text = Inr raw_data"
    and "map_fields env raw_data = Inl e"
  shows "fetch_myntra_product env url = (Inl e, [url])"
  using assms
  by (simp add: fetch_myntra_product_def handle_response_def extract_product_def bind_def)

text \<open>
  Claim C2 on three pages: a number where the first album should be, a mapping where
  the list of images should be, and a number there.
\<close>

theorem structural_error_escapes_unclassified_witness:
  "fetch_myntra_product (page_with_script ''var pdpData = {\"media\": {\"albums\": [7]}}'')
     ''https://www.myntra.com/p'' = (Inl AttributeError, [''https://www.myntra.com/p''])
   \<and> fetch_myntra_product
       (page_with_script ''var pdpData = {\"media\": {\"albums\": [{\"images\": {\"a\": 1}}]}}'')
     ''https://www.myntra.com/p'' = (Inl KeyError, [''https://www.myntra.com/p''])
   \<and> fetch_myntra_product
       (page_with_script ''var pdpData = {\"media\": {\"albums\": [{\"images\": 7}]}}'')
     ''https://www.myntra.com/p'' = (Inl TypeError, [''https://www.myntra.com/p''])"
proof -
  let ?s1 = "''var pdpData = {\"media\": {\"albums\": [7]}}''"
  let ?s2 = "''var pdpData = {\"media\": {\"albums\": [{\"images\": {\"a\": 1}}]}}''"
  let ?s3 = "''var pdpData = {\"media\": {\"albums\": [{\"images\": 7}]}}''"
  let ?d1 = "PyDict [(''media'', PyDict [(''albums'', PyList [PyInt 7])])]"
  let ?d2 = "PyDict [(''media'', PyDict [(''albums'',
               PyList [PyDict [(''images'', PyDict [(''a'', PyInt 1)])]])])]"
  let ?d3 = "PyDict [(''media'', PyDict [(''albums'',
               PyList [PyDict [(''images'', PyInt 7)]])])]"
  let ?url = "''https://www.myntra.com/p''"
  let ?resp = "\<lparr>status_code = 200, body_text = []\<rparr>"
  have 1: "urlparse_netloc (page_with_script s) ?url = Inr ''www.myntra.com''" for s
    by (simp add: page_with_script_def plain_env_def url_defs)
  have 2: "str_contains ''myntra.com'' ''www.myntra.com''"
    by simp
  have 3: "requests_get (page_with_script s) ?url HEADERS 10 = Inr ?resp" for s
    by (simp add: page_with_script_def plain_env_def empty_page_def)
  have 4: "status_code ?resp = 200"
    by simp
  have 5: "\<not> str_contains ''Access Denied'' (body_text ?resp)"
    by simp
  have 6: "\<not> str_contains (''You don'' @ [CHR 0x27] @ ''t have permission'') (body_text ?resp)"
    by simp
  have 7: "locate_script (script_texts (page_with_script ?s1) (body_text ?resp)) = Inr ?s1"
    "locate_script (script_texts (page_with_script ?s2) (body_text ?resp)) = Inr ?s2"
    "locate_script (script_texts (page_with_script ?s3) (body_text ?resp)) = Inr ?s3"
    by (simp_all add: locate_script_def page_with_script_def)
  have 81: "extract_json (page_with_script ?s1) ?s1 = Inr ?d1"
    by (simp add: extract_json_def str_index_from_def bind_def json_loads_def decoder_defs
        parse_int_def digit_val_def page_with_script_def plain_env_def)
  have 82: "extract_json (page_with_script ?s2) ?s2 = Inr ?d2"
    by (simp add: extract_json_def str_index_from_def bind_def json_loads_def decoder_defs
        parse_int_def digit_val_def page_with_script_def plain_env_def)
  have 83: "extract_json (page_with_script ?s3) ?s3 = Inr ?d3"
    by (simp add: extract_json_def str_index_from_def bind_def json_loads_def decoder_defs
        parse_int_def digit_val_def page_with_script_def plain_env_def)
  have 91: "map_fields env ?d1 = Inl AttributeError" for env
    by (simp add: mapper_defs)
  have 92: "map_fields env ?d2 = Inl KeyError" for env
    by (simp add: mapper_defs)
  have 93: "map_fields env ?d3 = Inl TypeError" for env
    by (simp add: mapper_defs)
  from structural_error_escapes_unclassified[OF 1 2 3 4 5 6 7(1) 81 91]
    structural_error_escapes_unclassified[OF 1 2 3 4 5 6 7(2) 82 92]
    structural_error_escapes_unclassified[OF 1 2 3 4 5 6 7(3) 83 93]
  show ?thesis by simp
qed

text \<open>
  Claim C2 as stated fails: with a number under \<^verbatim>\<open>pdpData\<close> the handler does not fail
  with a classified error of status 500; the \<^verbatim>\<open>AttributeError\<close> of line 109 escapes it.
\<close>

theorem mapping_error_is_not_reclassified:
  "fetch_myntra_product (page_with_script ''var pdpData = {\"pdpData\": 5}'')
     ''https://www.myntra.com/p'' = (Inl AttributeError, [''https://www.myntra.com/p''])
   \<and> (\<forall>detail. Inl AttributeError \<noteq> (Inl (HTTPException 500 detail) :: py_exn + ProductResponse))"
  by (simp add: fetch_myntra_product_def page_with_script_def plain_env_def url_defs
      empty_page_def handle_response_def extract_product_def
      locate_script_def extract_json_def str_index_from_def json_loads_def decoder_defs
      parse_int_def digit_val_def mapper_defs)

section \<open>The decoder on a text that goes on\<close>

text \<open>
  What the decoder reads from a text it reads from every longer text too, with the
  rest of the longer text left over, provided that a number is not read at the very end
  of the shorter text. More steps never change a result.
\<close>

text \<open>
  From here on the equations of the scanner are unfolded by hand: as rewrite rules they
  would unfold the recursive calls on a text that is not a literal.
\<close>

declare scanstring.simps [simp del] scan_once.simps [simp del]
  parse_object_items.simps [simp del] parse_array_items.simps [simp del]

lemma decode_uXXXX_length: "decode_uXXXX s = Some u \<Longrightarrow> 4 \<le> length s"
  by (cases s; cases "tl s"; cases "tl (tl s)"; cases "tl (tl (tl s))")
     (auto simp: decode_uXXXX_def split: option.splits list.splits)

lemma decode_uXXXX_append: "decode_uXXXX s = Some u \<Longrightarrow> decode_uXXXX (s @ t) = Some u"
  using decode_uXXXX_length[of s u] by (simp add: decode_uXXXX_def)

lemma scanstring_single: "scanstring [c] = Some x \<Longrightarrow> c = CHR 0x22"
  by (simp add: scanstring.simps split: if_splits)

lemma scanstring_escape_u:
  "scanstring (CHR 0x5C # CHR ''u'' # es) = Some x \<Longrightarrow> \<exists>u. decode_uXXXX es = Some u"
  by (cases "decode_uXXXX es") (simp_all add: scanstring.simps(2)[of _ "CHR ''u'' # es"])

lemma join_surrogates_append:
  assumes "scanstring (drop (snd (join_surrogates u s)) s) = Some x"
  shows "join_surrogates u (s @ t) = join_surrogates u s"
proof (cases "is_high_surrogate u")
  case False
  then show ?thesis by (simp add: join_surrogates_def)
next
  case high: True
  show ?thesis
  proof (cases "take 2 s = [CHR 0x5C, CHR ''u'']")
    case True
    then have len: "2 \<le> length s"
      by (cases s; cases "tl s") auto
    then have t2: "take 2 (s @ t) = [CHR 0x5C, CHR ''u'']" using True by simp
    obtain es where s: "s = CHR 0x5C # CHR ''u'' # es"
      using True by (cases s; cases "tl s") auto
    show ?thesis
    proof (cases "decode_uXXXX (drop 2 s)")
      case None
      with high True have "join_surrogates u s = (u, 0)"
        by (simp add: join_surrogates_def)
      with assms have "scanstring s = Some x" by simp
      with s None scanstring_escape_u[of es x] show ?thesis by simp
    next
      case (Some u2)
      from decode_uXXXX_append[OF Some, of t] len
      have "decode_uXXXX (drop 2 (s @ t)) = Some u2" by simp
      with Some high True t2 show ?thesis
        by (simp add: join_surrogates_def)
    qed
  next
    case False
    with high have j: "join_surrogates u s = (u, 0)"
      by (simp add: join_surrogates_def)
    with assms have sc: "scanstring s = Some x" by simp
    have "take 2 (s @ t) \<noteq> [CHR 0x5C, CHR ''u'']"
    proof (cases s)
      case Nil
      with sc show ?thesis by (simp add: scanstring.simps)
    next
      case (Cons c cs)
      show ?thesis
      proof (cases cs)
        case Nil
        with Cons sc scanstring_single[of c x] show ?thesis by auto
      next
        case (Cons d ds)
        with \<open>s = c # cs\<close> False show ?thesis by simp
      qed
    qed
    then have "join_surrogates u (s @ t) = (u, 0)"
      by (simp add: join_surrogates_def)
    with j show ?thesis by simp
  qed
qed


lemma scanstring_append:
  "scanstring s = Some (content, r) \<Longrightarrow> scanstring (s @ t) = Some (content, r @ t)"
proof (induction s arbitrary: content r rule: scanstring.induct)
  case 1
  then show ?case by (simp add: scanstring.simps)
next
  case (2 c cs)
  note step = "2.prems"[unfolded scanstring.simps(2)[of c cs]]
  have goal: "scanstring ((c # cs) @ t) =
     (if c = CHR 0x22 then Some ([], cs @ t)
      else if c = CHR 0x5C then
        (case cs @ t of
           [] \<Rightarrow> None
         | e # es \<Rightarrow>
             if e = CHR ''u'' then
               (case decode_uXXXX es of
                  None \<Rightarrow> None
                | Some u \<Rightarrow>
                    (case scanstring (drop (snd (join_surrogates u (drop 4 es))) (drop 4 es)) of
                       None \<Rightarrow> None
                     | Some (content, r) \<Rightarrow>
                         Some (utf8 (fst (join_surrogates u (drop 4 es))) @ content, r)))
             else
               (case backslash e of
                  None \<Rightarrow> None
                | Some ch \<Rightarrow>
                    (case scanstring es of
                       None \<Rightarrow> None
                     | Some (content, r) \<Rightarrow> Some (ch # content, r))))
      else if (of_char c :: nat) \<le> 31 then None
      else
        (case scanstring (cs @ t) of
           None \<Rightarrow> None
         | Some (content, r) \<Rightarrow> Some (c # content, r)))"
    by (simp add: scanstring.simps(2)[of c "cs @ t"])
  show ?case
  proof (cases "c = CHR 0x22")
    case True
    with step have "content = [] \<and> r = cs" by auto
    with True show ?thesis unfolding goal by simp
  next
    case nq: False
    show ?thesis
    proof (cases "c = CHR 0x5C")
      case bs: True
      from step nq bs obtain e es where cs: "cs = e # es"
        by (cases cs) simp_all
      show ?thesis
      proof (cases "e = CHR ''u''")
        case u: True
        from step nq bs cs u obtain cp where d: "decode_uXXXX es = Some cp"
          by (cases "decode_uXXXX es") simp_all
        let ?j = "join_surrogates cp (drop 4 es)"
        from step nq bs cs u d obtain content' where
          sc: "scanstring (drop (snd ?j) (drop 4 es)) = Some (content', r)"
          and c: "content = utf8 (fst ?j) @ content'"
          by (cases "scanstring (drop (snd ?j) (drop 4 es))") auto
        from decode_uXXXX_length[OF d] have dr: "drop 4 (es @ t) = drop 4 es @ t" by simp
        from join_surrogates_append[OF sc, of t]
        have j: "join_surrogates cp (drop 4 es @ t) = ?j" .
        have le: "snd ?j \<le> length (drop 4 es)"
        proof (rule ccontr)
          assume "\<not> snd ?j \<le> length (drop 4 es)"
          then have "drop (snd ?j) (drop 4 es) = []" by simp
          with sc show False by (simp add: scanstring.simps)
        qed
        from "2.IH"(1)[OF nq bs cs u d sc] le
        have "scanstring (drop (snd ?j) (drop 4 es @ t)) = Some (content', r @ t)"
          by simp
        with nq bs cs u decode_uXXXX_append[OF d, of t] dr j c show ?thesis
          unfolding goal by simp
      next
        case nu: False
        from step nq bs cs nu obtain ch where b: "backslash e = Some ch"
          by (cases "backslash e") simp_all
        from step nq bs cs nu b obtain content' where
          sc: "scanstring es = Some (content', r)" and c: "content = ch # content'"
          by (cases "scanstring es") auto
        from "2.IH"(2)[OF nq bs cs nu b sc] nq bs cs nu b c show ?thesis
          unfolding goal by simp
      qed
    next
      case nb: False
      from step nq nb have ctl: "\<not> (of_char c :: nat) \<le> 31"
        by (auto split: if_splits)
      from step nq nb ctl obtain content' where
        sc: "scanstring cs = Some (content', r)" and c: "content = c # content'"
        by (cases "scanstring cs") auto
      from "2.IH"(3)[OF nq nb ctl sc] nq nb ctl c show ?thesis
        unfolding goal by simp
    qed
  qed
qed

lemma while_append:
  "dropWhile P xs \<noteq> [] \<Longrightarrow>
     dropWhile P (xs @ ys) = dropWhile P xs @ ys \<and> takeWhile P (xs @ ys) = takeWhile P xs"
  by (induction xs) auto

lemma match_digits_append:
  assumes "(case s of
              [] \<Rightarrow> None
            | c # cs \<Rightarrow>
                if c = CHR ''0'' then Some (sg @ [c], cs)
                else if is_digit c
                then Some (sg @ c # takeWhile is_digit cs, dropWhile is_digit cs)
                else None) = Some (integer, r)"
    and "r \<noteq> []"
  shows "(case s @ t of
              [] \<Rightarrow> None
            | c # cs \<Rightarrow>
                if c = CHR ''0'' then Some (sg @ [c], cs)
                else if is_digit c
                then Some (sg @ c # takeWhile is_digit cs, dropWhile is_digit cs)
                else None) = Some (integer, r @ t)"
proof (cases s)
  case Nil
  with assms show ?thesis by simp
next
  case (Cons c cs)
  show ?thesis
  proof (cases "c = CHR ''0''")
    case True
    with assms Cons show ?thesis by auto
  next
    case False
    with assms(1) Cons have dg: "is_digit c" and i: "integer = sg @ c # takeWhile is_digit cs"
      and r: "r = dropWhile is_digit cs"
      by (auto split: if_splits)
    from r assms(2) while_append[of is_digit cs t]
    have "dropWhile is_digit (cs @ t) = r @ t" "takeWhile is_digit (cs @ t) = takeWhile is_digit cs"
      by auto
    with False dg i Cons show ?thesis by simp
  qed
qed

lemma match_integer_append:
  assumes "match_integer s = Some (integer, r)" and "r \<noteq> []"
  shows "match_integer (s @ t) = Some (integer, r @ t)"
proof (cases "take 1 s = ''-''")
  case True
  then obtain s1 where s: "s = CHR ''-'' # s1"
    by (cases s) auto
  with assms(1) match_digits_append[where s=s1 and sg="''-''" and t=t, OF _ assms(2)] show ?thesis
    by (simp add: match_integer_def Let_def)
next
  case False
  from assms(1) have "s \<noteq> []"
    by (auto simp: match_integer_def)
  with False have "take 1 (s @ t) \<noteq> ''-''"
    by (cases s) auto
  with False assms(1) match_digits_append[where s=s and sg="[]" and t=t, OF _ assms(2)] show ?thesis
    by (simp add: match_integer_def Let_def)
qed

lemma match_frac_append:
  assumes "match_frac s = (fraction, r)" and "r \<noteq> []"
    and "fraction = [] \<longrightarrow> hd r \<noteq> CHR ''.''"
  shows "match_frac (s @ t) = (fraction, r @ t)"
proof (cases "\<exists>x xs. s = CHR ''.'' # x # xs \<and> is_digit x")
  case True
  then obtain x xs where s: "s = CHR ''.'' # x # xs" and x: "is_digit x" by blast
  with assms(1) have f: "fraction = CHR ''.'' # takeWhile is_digit (x # xs)"
    and r: "r = dropWhile is_digit (x # xs)"
    by (auto simp: match_frac_def)
  from r assms(2) while_append[of is_digit "x # xs" t]
  have "dropWhile is_digit ((x # xs) @ t) = r @ t"
    "takeWhile is_digit ((x # xs) @ t) = takeWhile is_digit (x # xs)"
    by auto
  with s x f show ?thesis
    by (simp add: match_frac_def)
next
  case False
  with assms(1) have fr: "fraction = []" "r = s"
    by (auto simp: match_frac_def split: list.splits if_splits)
  with assms(2,3) obtain c cs where s: "s = c # cs" and c: "c \<noteq> CHR ''.''"
    by (cases s) auto
  with fr show ?thesis
    by (cases "cs @ t") (simp_all add: match_frac_def)
qed

lemma match_exp_append:
  assumes "match_exp s = (exponent, r)" and "r \<noteq> []"
    and "exponent = [] \<longrightarrow> hd r \<noteq> CHR ''e'' \<and> hd r \<noteq> CHR ''E''"
  shows "match_exp (s @ t) = (exponent, r @ t)"
proof (cases "exponent = []")
  case True
  with assms(1) have rs: "r = s"
    by (auto simp: match_exp_def Let_def split: list.splits if_splits)
  with assms(2,3) True obtain c cs where s: "s = c # cs" and c: "c \<noteq> CHR ''e''" "c \<noteq> CHR ''E''"
    by (cases s) auto
  with True rs show ?thesis
    by (simp add: match_exp_def)
next
  case False
  with assms(1) obtain e xs where s: "s = e # xs" and e: "e = CHR ''e'' \<or> e = CHR ''E''"
    by (cases s) (auto simp: match_exp_def Let_def split: if_splits)
  let ?sg = "if take 1 xs = ''+'' \<or> take 1 xs = ''-'' then take 1 xs else []"
  let ?ys = "drop (length ?sg) xs"
  from assms(1) False s e have dg: "takeWhile is_digit ?ys \<noteq> []"
    and ex: "exponent = e # ?sg @ takeWhile is_digit ?ys" and r: "r = dropWhile is_digit ?ys"
    by (auto simp: match_exp_def Let_def split: if_splits)
  from dg have xs: "xs \<noteq> []" by auto
  then have t1: "take 1 (xs @ t) = take 1 xs" by (cases xs) auto
  have "length ?sg \<le> length xs" using xs by (cases xs) auto
  then have dr: "drop (length ?sg) (xs @ t) = ?ys @ t" by simp
  from r assms(2) while_append[of is_digit ?ys t]
  have w: "dropWhile is_digit (?ys @ t) = r @ t"
    "takeWhile is_digit (?ys @ t) = takeWhile is_digit ?ys"
    by auto
  show ?thesis
    unfolding s append_Cons match_exp_def list.case Let_def t1 dr w
    using e dg ex by auto
qed

lemma match_number_append:
  assumes "match_number s = Some (integer, fraction, exponent, r)" and "ends_number r"
  shows "match_number (s @ t) = Some (integer, fraction, exponent, r @ t)"
proof -
  from assms(1) obtain r0 r1 where i: "match_integer s = Some (integer, r0)"
    and f: "match_frac r0 = (fraction, r1)" and e: "match_exp r1 = (exponent, r)"
    by (auto simp: match_number_def Let_def split: option.splits prod.splits)
  from assms(2) have r: "r \<noteq> []" and h: "hd r \<notin> set ''0123456789.eE''"
    by (auto simp: ends_number_def)
  from e r have r1: "r1 \<noteq> []"
    by (auto simp: match_exp_def)
  from f r1 have r0: "r0 \<noteq> []"
    by (auto simp: match_frac_def)
  have e': "match_exp (r1 @ t) = (exponent, r @ t)"
    using e r h by (intro match_exp_append) auto
  have "fraction = [] \<longrightarrow> hd r1 \<noteq> CHR ''.''"
  proof (cases "exponent = []")
    case True
    with e have "r = r1"
      by (auto simp: match_exp_def Let_def split: list.splits if_splits)
    with h show ?thesis by auto
  next
    case False
    with e show ?thesis
      by (cases r1) (auto simp: match_exp_def Let_def split: if_splits)
  qed
  with f r1 have f': "match_frac (r0 @ t) = (fraction, r1 @ t)"
    by (intro match_frac_append) auto
  from match_integer_append[OF i r0, of t] f' e' show ?thesis
    by (simp add: match_number_def)
qed

lemma skip_ws_append: "skip_ws s \<noteq> [] \<Longrightarrow> skip_ws (s @ t) = skip_ws s @ t"
  using while_append[of is_ws s t] by (simp add: skip_ws_def)

lemma head_append:
  assumes "xs \<noteq> []"
  shows "take 1 (xs @ t) = take 1 xs" "drop 1 (xs @ t) = drop 1 xs @ t"
    "take (Suc 0) (xs @ t) = take (Suc 0) xs" "drop (Suc 0) (xs @ t) = drop (Suc 0) xs @ t"
  using assms by (cases xs; simp)+

lemma skip_ws_Cons: "\<not> is_ws c \<Longrightarrow> skip_ws (c # cs) = c # cs"
  by (simp add: skip_ws_def)

lemma delimiter_ends_number:
  assumes "take 1 (skip_ws r) = [c]" and "c \<in> set '',}]''"
  shows "ends_number r"
proof (cases r)
  case Nil
  with assms show ?thesis by (simp add: skip_ws_def)
next
  case (Cons x xs)
  show ?thesis
  proof (cases "is_ws x")
    case True
    with Cons show ?thesis by (auto simp: ends_number_def is_ws_def)
  next
    case False
    with Cons assms show ?thesis by (auto simp: ends_number_def skip_ws_def)
  qed
qed

lemma delimiter_ends_value:
  assumes "take 1 (skip_ws r) = [c]" and "c \<in> set '',}]''"
  shows "value_ends v r"
  using delimiter_ends_number[OF assms] by (cases v) simp_all

lemma not_scanned_Nil:
  "scan_once env n d [] \<noteq> Scanned v r"
  "parse_object_items env n d [] \<noteq> Scanned ps r"
  by (cases n; simp add: scan_once.simps parse_object_items.simps)+

lemma array_not_scanned_Nil: "parse_array_items env n d [] \<noteq> Scanned vs r"
  by (cases n) (auto simp: parse_array_items.simps not_scanned_Nil split: scanned.splits)

lemma array_step_append:
  assumes IH1: "\<And>m d s v r. scan_once env n d s = Scanned v r \<Longrightarrow> value_ends v r \<Longrightarrow> n \<le> m
             \<Longrightarrow> scan_once env m d (s @ t) = Scanned v (r @ t)"
    and IH3: "\<And>m d s vs r. parse_array_items env n d s = Scanned vs r \<Longrightarrow> n \<le> m
             \<Longrightarrow> parse_array_items env m d (s @ t) = Scanned vs (r @ t)"
    and run: "parse_array_items env (Suc n) d s = Scanned vs r"
    and le: "Suc n \<le> m"
  shows "parse_array_items env m d (s @ t) = Scanned vs (r @ t)"
proof -
  from le obtain m' where m: "m = Suc m'" and le': "n \<le> m'"
    by (cases m) auto
  from run obtain v r1 where v: "scan_once env n d s = Scanned v r1"
    by (cases "scan_once env n d s") (simp_all add: parse_array_items.simps)
  note run' = run[unfolded parse_array_items.simps(2) v scanned.case]
  show ?thesis
  proof (cases "take 1 (skip_ws r1) = '']''")
    case True
    with run' have res: "vs = [v]" "r = drop 1 (skip_ws r1)" by auto
    from True have ne: "skip_ws r1 \<noteq> []" by auto
    from IH1[OF v delimiter_ends_value[OF True] le']
    have "scan_once env m' d (s @ t) = Scanned v (r1 @ t)" by simp
    with True ne res show ?thesis
      unfolding m parse_array_items.simps(2) by (simp add: skip_ws_append head_append Suc_le_eq)
  next
    case False
    with run' have comma: "take 1 (skip_ws r1) = '',''"
      by (auto split: if_splits)
    let ?next = "skip_ws (drop 1 (skip_ws r1))"
    from run' False comma obtain vs' where
      rest: "parse_array_items env n d ?next = Scanned vs' r" and res: "vs = v # vs'"
      by (cases "parse_array_items env n d ?next") auto
    from comma have ne: "skip_ws r1 \<noteq> []" by auto
    from rest array_not_scanned_Nil[of env n d vs' r] have ne2: "?next \<noteq> []" by auto
    from IH1[OF v delimiter_ends_value[OF comma] le']
    have 1: "scan_once env m' d (s @ t) = Scanned v (r1 @ t)" by simp
    have 2: "skip_ws (drop 1 (skip_ws (r1 @ t))) = ?next @ t"
      using ne ne2 by (simp add: skip_ws_append head_append Suc_le_eq)
    from IH3[OF rest le'] have 3: "parse_array_items env m' d (?next @ t) = Scanned vs' (r @ t)" .
    from False comma ne res 1 2 3 show ?thesis
      unfolding m parse_array_items.simps(2) by (simp add: skip_ws_append head_append Suc_le_eq)
  qed
qed

lemma object_step_append:
  assumes IH1: "\<And>m d s v r. scan_once env n d s = Scanned v r \<Longrightarrow> value_ends v r \<Longrightarrow> n \<le> m
             \<Longrightarrow> scan_once env m d (s @ t) = Scanned v (r @ t)"
    and IH2: "\<And>m d s ps r. parse_object_items env n d s = Scanned ps r \<Longrightarrow> n \<le> m
             \<Longrightarrow> parse_object_items env m d (s @ t) = Scanned ps (r @ t)"
    and run: "parse_object_items env (Suc n) d s = Scanned ps r"
    and le: "Suc n \<le> m"
  shows "parse_object_items env m d (s @ t) = Scanned ps (r @ t)"
proof -
  from le obtain m' where m: "m = Suc m'" and le': "n \<le> m'"
    by (cases m) auto
  from run obtain cs where s: "s = CHR 0x22 # cs"
    by (cases s) (auto simp: parse_object_items.simps split: if_splits)
  from run s obtain key r1 where k: "scanstring cs = Some (key, r1)"
    by (cases "scanstring cs") (auto simp: parse_object_items.simps)
  from run s k have colon: "take 1 (skip_ws r1) = '':''"
    by (auto simp: parse_object_items.simps split: if_splits)
  let ?a = "skip_ws (drop 1 (skip_ws r1))"
  from run s k colon obtain v r2 where v: "scan_once env n d ?a = Scanned v r2"
    by (cases "scan_once env n d ?a") (auto simp: parse_object_items.simps)
  note run' = run[unfolded s parse_object_items.simps(2) list.case k option.case prod.case
      colon v scanned.case]
  from colon have ne1: "skip_ws r1 \<noteq> []" by auto
  from v not_scanned_Nil(1)[of env n d v r2] have nea: "?a \<noteq> []" by auto
  have a: "skip_ws (drop 1 (skip_ws (r1 @ t))) = ?a @ t"
    using ne1 nea by (simp add: skip_ws_append head_append Suc_le_eq)
  have c': "take 1 (skip_ws (r1 @ t)) = '':''"
    using ne1 colon by (simp add: skip_ws_append head_append Suc_le_eq)
  note goal = parse_object_items.simps(2)[of env m' d "CHR 0x22 # cs @ t", unfolded list.case]
  show ?thesis
  proof (cases "take 1 (skip_ws r2) = ''}''")
    case True
    with run' have res: "ps = [(key, v)]" "r = drop 1 (skip_ws r2)" by auto
    from True have ne: "skip_ws r2 \<noteq> []" by auto
    from IH1[OF v delimiter_ends_value[OF True] le']
    have 1: "scan_once env m' d (?a @ t) = Scanned v (r2 @ t)" by simp
    have 2: "take 1 (skip_ws (r2 @ t)) = ''}''" "drop 1 (skip_ws (r2 @ t)) = r @ t"
      using ne True res by (simp_all add: skip_ws_append head_append Suc_le_eq)
    show ?thesis
      unfolding m s append_Cons goal scanstring_append[OF k] option.case prod.case c' a 1
        scanned.case 2
      using res by simp
  next
    case False
    with run' have comma: "take 1 (skip_ws r2) = '',''"
      by (auto split: if_splits)
    let ?next = "skip_ws (drop 1 (skip_ws r2))"
    from run' False comma obtain ps' where
      rest: "parse_object_items env n d ?next = Scanned ps' r" and res: "ps = (key, v) # ps'"
      by (cases "parse_object_items env n d ?next") auto
    from comma have ne: "skip_ws r2 \<noteq> []" by auto
    from rest not_scanned_Nil(2)[of env n d ps' r] have ne2: "?next \<noteq> []" by auto
    from IH1[OF v delimiter_ends_value[OF comma] le']
    have 1: "scan_once env m' d (?a @ t) = Scanned v (r2 @ t)" by simp
    have 2: "take 1 (skip_ws (r2 @ t)) = '',''" "skip_ws (drop 1 (skip_ws (r2 @ t))) = ?next @ t"
      using ne ne2 comma by (simp_all add: skip_ws_append head_append Suc_le_eq)
    from IH2[OF rest le'] have 3: "parse_object_items env m' d (?next @ t) = Scanned ps' (r @ t)" .
    show ?thesis
      unfolding m s append_Cons goal scanstring_append[OF k] option.case prod.case c' a 1
        scanned.case 2 3
      using res by simp
  qed
qed

lemma take_literal_append:
  assumes "take k s = lit" and "length lit = k"
  shows "take k (s @ t) = lit" and "drop k (s @ t) = drop k s @ t"
    and "j \<le> k \<Longrightarrow> take j (s @ t) = take j s"
proof -
  from assms have "k \<le> length s"
    by (metis length_take min.absorb_iff2 min.commute)
  with assms(1) show "take k (s @ t) = lit" "drop k (s @ t) = drop k s @ t"
    "j \<le> k \<Longrightarrow> take j (s @ t) = take j s"
    by simp_all
qed

lemma match_number_first:
  "match_number (c # cs) = Some x \<Longrightarrow> c = CHR ''-'' \<or> is_digit c"
  by (auto simp: match_number_def match_integer_def Let_def is_digit_def
      split: option.splits if_splits)

lemma match_number_other:
  "c \<noteq> CHR ''-'' \<Longrightarrow> \<not> is_digit c \<Longrightarrow> match_number (c # cs) = None"
  by (simp add: match_number_def match_integer_def Let_def is_digit_def)

lemma match_number_minus_other:
  "\<not> is_digit c \<Longrightarrow> match_number (CHR ''-'' # c # cs) = None"
  by (simp add: match_number_def match_integer_def Let_def is_digit_def)

lemma scan_once_atom:
  "c \<noteq> CHR 0x22 \<Longrightarrow> c \<noteq> CHR ''{'' \<Longrightarrow> c \<noteq> CHR ''['' \<Longrightarrow>
     scan_once env (Suc n) d (c # cs) = scan_atom env (c # cs)"
  by (simp add: scan_once.simps scan_atom_def)

lemma scan_atom_append:
  assumes run: "scan_atom env s = Scanned v r" and ends: "value_ends v r"
  shows "scan_atom env (s @ t) = Scanned v (r @ t)"
proof (cases "take 4 s = ''null''")
  case True
  with run take_literal_append(1,2)[OF True, where t=t] show ?thesis
    by (simp add: scan_atom_def del: take_append drop_append)
next
  case n1: False
  show ?thesis
  proof (cases "take 4 s = ''true''")
    case True
    with run n1 take_literal_append(1,2)[OF True, where t=t] show ?thesis
      by (simp add: scan_atom_def del: take_append drop_append)
  next
    case n2: False
    show ?thesis
    proof (cases "take 5 s = ''false''")
      case True
      from take_literal_append(3)[OF True, where j=4 and t=t] have "take 4 (s @ t) = take 4 s" by simp
      with run n1 n2 True take_literal_append(1,2)[OF True, where t=t] show ?thesis
        by (simp add: scan_atom_def del: take_append drop_append)
    next
      case n3: False
      from run n1 n2 n3 obtain c cs where s: "s = c # cs"
        by (cases s) (auto simp: scan_atom_def match_number_def match_integer_def)
      show ?thesis
      proof (cases "match_number s")
        case (Some x)
        obtain integer fraction exponent r' where x: "x = (integer, fraction, exponent, r')"
          by (cases x) auto
        from Some s match_number_first[of c cs x] have c: "c = CHR ''-'' \<or> is_digit c"
          by simp
        then have lit: "take 4 (s @ t) \<noteq> ''null''" "take 4 (s @ t) \<noteq> ''true''"
          "take 5 (s @ t) \<noteq> ''false''"
          using s by (auto simp: is_digit_def simp del: take_append)
        from run n1 n2 n3 Some x have r: "r' = r" and num: "\<exists>i f. v = PyInt i \<or> v = PyFloat f"
          by (auto simp: scan_atom_def split: if_splits option.splits)
        from num ends have "ends_number r" by auto
        with Some x r have "match_number (s @ t) = Some (integer, fraction, exponent, r @ t)"
          by (auto intro: match_number_append)
        with run n1 n2 n3 Some x lit show ?thesis
          by (auto simp: scan_atom_def simp del: take_append drop_append
              split: if_splits option.splits)
      next
        case None
        show ?thesis
        proof (cases "take 3 s = ''NaN''")
          case True
          with s have c: "c = CHR ''N''" by simp
          with s have lit: "take 4 (s @ t) \<noteq> ''null''" "take 4 (s @ t) \<noteq> ''true''"
            "take 5 (s @ t) \<noteq> ''false''" "match_number (s @ t) = None"
            by (simp_all add: match_number_other is_digit_def del: take_append)
          with run n1 n2 n3 None True take_literal_append(1,2)[OF True, where t=t] show ?thesis
            by (simp add: scan_atom_def del: take_append drop_append)
        next
          case n4: False
          show ?thesis
          proof (cases "take 8 s = ''Infinity''")
            case True
            with s have c: "c = CHR ''I''" by simp
            with s have lit: "take 4 (s @ t) \<noteq> ''null''" "take 4 (s @ t) \<noteq> ''true''"
              "take 5 (s @ t) \<noteq> ''false''" "match_number (s @ t) = None"
              "take 3 (s @ t) \<noteq> ''NaN''"
              by (simp_all add: match_number_other is_digit_def del: take_append)
            with run n1 n2 n3 None n4 True take_literal_append(1,2)[OF True, where t=t] show ?thesis
              by (simp add: scan_atom_def del: take_append drop_append)
          next
            case n5: False
            with run n1 n2 n3 None n4 have True: "take 9 s = ''-Infinity''"
              by (auto simp: scan_atom_def split: if_splits)
            with s obtain cs' where cs: "s = CHR ''-'' # CHR ''I'' # cs'"
              by (cases cs) auto
            then have lit: "take 4 (s @ t) \<noteq> ''null''" "take 4 (s @ t) \<noteq> ''true''"
              "take 5 (s @ t) \<noteq> ''false''" "match_number (s @ t) = None"
              "take 3 (s @ t) \<noteq> ''NaN''" "take 8 (s @ t) \<noteq> ''Infinity''"
              by (simp_all add: match_number_minus_other is_digit_def del: take_append)
            with run n1 n2 n3 None n4 n5 True take_literal_append(1,2)[OF True, where t=t]
            show ?thesis
              by (simp add: scan_atom_def del: take_append drop_append)
          qed
        qed
      qed
    qed
  qed
qed

lemma scan_once_step_append:
  assumes IH2: "\<And>m d s ps r. parse_object_items env n d s = Scanned ps r \<Longrightarrow> n \<le> m
             \<Longrightarrow> parse_object_items env m d (s @ t) = Scanned ps (r @ t)"
    and IH3: "\<And>m d s vs r. parse_array_items env n d s = Scanned vs r \<Longrightarrow> n \<le> m
             \<Longrightarrow> parse_array_items env m d (s @ t) = Scanned vs (r @ t)"
    and run: "scan_once env (Suc n) d s = Scanned v r"
    and ends: "value_ends v r"
    and le: "Suc n \<le> m"
  shows "scan_once env m d (s @ t) = Scanned v (r @ t)"
proof -
  from le obtain m' where m: "m = Suc m'" and le': "n \<le> m'"
    by (cases m) auto
  from run obtain c cs where s: "s = c # cs"
    by (cases s) (auto simp: scan_once.simps)
  note run' = run[unfolded s scan_once.simps(2) list.case]
  note goal = scan_once.simps(2)[of env m' d "c # cs @ t", unfolded list.case]
  show ?thesis
  proof (cases "c = CHR 0x22")
    case True
    with run' obtain content where k: "scanstring cs = Some (content, r)"
      and v: "v = PyStr content"
      by (cases "scanstring cs") auto
    show ?thesis
      unfolding m s append_Cons goal using True v by (simp add: scanstring_append[OF k])
  next
    case nq: False
    show ?thesis
    proof (cases "c = CHR ''{''")
      case True
      with run' have d: "d \<noteq> 0" by (auto split: if_splits)
      show ?thesis
      proof (cases "take 1 (skip_ws cs) = ''}''")
        case close: True
        with run' True d have res: "v = PyDict []" "r = drop 1 (skip_ws cs)" by auto
        from close have ne: "skip_ws cs \<noteq> []" by auto
        have "take 1 (skip_ws (cs @ t)) = ''}''" "drop 1 (skip_ws (cs @ t)) = r @ t"
          using ne close res by (simp_all add: skip_ws_append head_append Suc_le_eq)
        then show ?thesis
          unfolding m s append_Cons goal using True d res by simp
      next
        case False
        with run' True d obtain pairs where
          p: "parse_object_items env n (d - 1) (skip_ws cs) = Scanned pairs r"
          and v: "v = PyDict (dict_of_pairs pairs)"
          by (cases "parse_object_items env n (d - 1) (skip_ws cs)") auto
        from p not_scanned_Nil(2)[of env n "d - 1" pairs r] have ne: "skip_ws cs \<noteq> []"
          by auto
        have 1: "skip_ws (cs @ t) = skip_ws cs @ t" "take 1 (skip_ws (cs @ t)) \<noteq> ''}''"
          using ne False by (simp_all add: skip_ws_append head_append Suc_le_eq)
        from IH2[OF p le']
        have 2: "parse_object_items env m' (d - 1) (skip_ws cs @ t) = Scanned pairs (r @ t)" .
        show ?thesis
          unfolding m s append_Cons goal using True d v 1 2 by simp
      qed
    next
      case no: False
      show ?thesis
      proof (cases "c = CHR ''[''")
        case True
        with run' have d: "d \<noteq> 0" by (auto split: if_splits)
        show ?thesis
        proof (cases "take 1 (skip_ws cs) = '']''")
          case close: True
          with run' True d have res: "v = PyList []" "r = drop 1 (skip_ws cs)" by auto
          from close have ne: "skip_ws cs \<noteq> []" by auto
          have "take 1 (skip_ws (cs @ t)) = '']''" "drop 1 (skip_ws (cs @ t)) = r @ t"
            using ne close res by (simp_all add: skip_ws_append head_append Suc_le_eq)
          then show ?thesis
            unfolding m s append_Cons goal using True d res by simp
        next
          case False
          with run' True d obtain vs where
            p: "parse_array_items env n (d - 1) (skip_ws cs) = Scanned vs r"
            and v: "v = PyList vs"
            by (cases "parse_array_items env n (d - 1) (skip_ws cs)") auto
          from p array_not_scanned_Nil[of env n "d - 1" vs r] have ne: "skip_ws cs \<noteq> []"
            by auto
          have 1: "skip_ws (cs @ t) = skip_ws cs @ t" "take 1 (skip_ws (cs @ t)) \<noteq> '']''"
            using ne False by (simp_all add: skip_ws_append head_append Suc_le_eq)
          from IH3[OF p le']
          have 2: "parse_array_items env m' (d - 1) (skip_ws cs @ t) = Scanned vs (r @ t)" .
          show ?thesis
            unfolding m s append_Cons goal using True d v 1 2 by simp
        qed
      next
        case na: False
        from run s nq no na have "scan_atom env (c # cs) = Scanned v r"
          by (simp add: scan_once_atom)
        from scan_atom_append[OF this ends, of t] nq no na show ?thesis
          unfolding m s by (simp add: scan_once_atom)
      qed
    qed
  qed
qed

lemma scanner_append:
  "(\<forall>m d s v r. scan_once env n d s = Scanned v r \<longrightarrow> value_ends v r \<longrightarrow> n \<le> m
       \<longrightarrow> scan_once env m d (s @ t) = Scanned v (r @ t))
   \<and> (\<forall>m d s ps r. parse_object_items env n d s = Scanned ps r \<longrightarrow> n \<le> m
       \<longrightarrow> parse_object_items env m d (s @ t) = Scanned ps (r @ t))
   \<and> (\<forall>m d s vs r. parse_array_items env n d s = Scanned vs r \<longrightarrow> n \<le> m
       \<longrightarrow> parse_array_items env m d (s @ t) = Scanned vs (r @ t))"
proof (induction n)
  case 0
  show ?case
    by (simp add: scan_once.simps parse_object_items.simps parse_array_items.simps)
next
  case (Suc n)
  then have IH1: "\<And>m d s v r. scan_once env n d s = Scanned v r \<Longrightarrow> value_ends v r \<Longrightarrow> n \<le> m
             \<Longrightarrow> scan_once env m d (s @ t) = Scanned v (r @ t)"
    and IH2: "\<And>m d s ps r. parse_object_items env n d s = Scanned ps r \<Longrightarrow> n \<le> m
             \<Longrightarrow> parse_object_items env m d (s @ t) = Scanned ps (r @ t)"
    and IH3: "\<And>m d s vs r. parse_array_items env n d s = Scanned vs r \<Longrightarrow> n \<le> m
             \<Longrightarrow> parse_array_items env m d (s @ t) = Scanned vs (r @ t)"
    by blast+
  show ?case
    using scan_once_step_append[OF IH2 IH3] object_step_append[OF IH1 IH2]
      array_step_append[OF IH1 IH3]
    by blast
qed

lemma scan_once_append:
  assumes "scan_once env n d s = Scanned v r" and "value_ends v r" and "n \<le> m"
  shows "scan_once env m d (s @ t) = Scanned v (r @ t)"
  using scanner_append[of env n t] assms by blast

lemma dropWhile_upto:
  "c \<notin> set xs \<Longrightarrow> dropWhile (\<lambda>x. x \<noteq> c) (xs @ c # ys) = c # ys"
  by (induction xs) auto

lemma object_scanned:
  "scan_once env n d (CHR ''{'' # cs) = Scanned v r \<Longrightarrow> \<exists>kvs. v = PyDict kvs"
  by (cases n) (auto simp: scan_once.simps split: if_splits scanned.splits)

lemma json_loads_Inr:
  assumes "json_loads env doc = Inr v"
  shows "\<exists>r. scan_once env (2 * length doc + 2) (recursion_budget env) (skip_ws doc) = Scanned v r
           \<and> skip_ws r = []"
  using assms
  by (auto simp: json_loads_def split: scanned.splits if_splits reject.splits)

text \<open>
  Claim C9. When the text of the first script that contains the marker is, from its
  first brace on, a text that the decoder accepts as a JSON object followed by anything
  that is not only whitespace, decoding the whole suffix fails (the decoder reads the
  object and refuses what is left) and the pipeline fails with status 500 and the
  message of a parse failure.
\<close>

theorem trailing_content_is_parse_error:
  assumes "find (str_contains ''pdpData'') scripts = Some (before @ obj @ rest)"
    and "CHR ''{'' \<notin> set before"
    and "take 1 obj = ''{''"
    and "json_loads env obj = Inr v"
    and "\<exists>c\<in>set rest. \<not> is_ws c"
  shows "json_loads env (obj @ rest) = Inl (ValueError (loads_error_str env (obj @ rest)))
       \<and> extract_product env scripts =
           Inl (HTTPException 500
                  (''Failed to parse product JSON: '' @ loads_error_str env (obj @ rest)))"
proof -
  from assms(3) obtain cs where obj: "obj = CHR ''{'' # cs"
    by (cases obj) auto
  then have ws: "skip_ws obj = obj" "skip_ws (obj @ rest) = obj @ rest"
    by (simp_all add: skip_ws_def is_ws_def)
  from json_loads_Inr[OF assms(4)] ws obtain r where
    run: "scan_once env (2 * length obj + 2) (recursion_budget env) obj = Scanned v r"
    and r: "skip_ws r = []"
    by auto
  from run obj obtain kvs where "v = PyDict kvs"
    using object_scanned by blast
  then have "value_ends v r"
    by simp
  from scan_once_append[OF run this, of "2 * length (obj @ rest) + 2" rest]
  have run': "scan_once env (2 * length (obj @ rest) + 2) (recursion_budget env) (obj @ rest)
               = Scanned v (r @ rest)"
    by simp
  from assms(5) have "skip_ws (r @ rest) \<noteq> []"
    by (auto simp: skip_ws_def dropWhile_eq_Nil_conv)
  with run' ws have loads:
    "json_loads env (obj @ rest) = Inl (ValueError (loads_error_str env (obj @ rest)))"
    by (simp add: json_loads_def)
  from assms(2) have "dropWhile (\<lambda>x. x \<noteq> CHR ''{'') (before @ obj @ rest) = obj @ rest"
    by (simp add: dropWhile_upto obj)
  with obj have "str_index_from (CHR ''{'') (before @ obj @ rest) = Inr (obj @ rest)"
    by (simp add: str_index_from_def)
  with loads have "extract_json env (before @ obj @ rest) =
      Inl (HTTPException 500
             (''Failed to parse product JSON: '' @ loads_error_str env (obj @ rest)))"
    by (simp add: extract_json_def bind_def)
  moreover from obj have "before @ obj @ rest \<noteq> []" by simp
  ultimately have "extract_product env scripts =
      Inl (HTTPException 500
             (''Failed to parse product JSON: '' @ loads_error_str env (obj @ rest)))"
    using assms(1) by (simp add: extract_product_def locate_script_def bind_def)
  with loads show ?thesis by simp
qed

text \<open>Claim C9 on a script that closes the assignment with a semicolon.\<close>

theorem trailing_content_is_parse_error_witness:
  "json_loads plain_env ''{\"mrp\": 5};'' =
     Inl (ValueError ''Extra data: line 1 column 11 (char 10)'')
   \<and> extract_product plain_env [''var pdpData = {\"mrp\": 5};''] =
       Inl (HTTPException 500
              ''Failed to parse product JSON: Extra data: line 1 column 11 (char 10)'')"
proof -
  have 1: "find (str_contains ''pdpData'') [''var pdpData = {\"mrp\": 5};''] =
             Some (''var pdpData = '' @ ''{\"mrp\": 5}'' @ '';'')"
    by simp
  have 2: "CHR ''{'' \<notin> set ''var pdpData = ''"
    by simp
  have 3: "take 1 ''{\"mrp\": 5}'' = ''{''"
    by simp
  have 4: "json_loads plain_env ''{\"mrp\": 5}'' = Inr (PyDict [(''mrp'', PyInt 5)])"
    by (simp add: json_loads_def decoder_defs scanstring.simps parse_int_def digit_val_def
        plain_env_def)
  have 5: "\<exists>c\<in>set '';''. \<not> is_ws c"
    by (simp add: is_ws_def)
  have 6: "loads_error_str plain_env (''{\"mrp\": 5}'' @ '';'') =
             ''Extra data: line 1 column 11 (char 10)''"
    by (simp add: plain_env_def quiet_env_def decode_error_str_def decoder_defs
        scanstring.simps parse_int_def digit_val_def errmsg_def code_points_def
        is_continuation_def str_nat.simps digit_char_def)
  from trailing_content_is_parse_error[OF 1 2 3 4 5] 6 show ?thesis
    by simp
qed

section \<open>The step counter of the decoder\<close>

text \<open>
  Every value that the scanner reads takes at least one character, so two steps for
  every character of the text and two more are never used up: \<open>json_loads\<close> always
  ends as \<^verbatim>\<open>json.loads\<close> does, with a value or with an exception of the interpreter.
\<close>

lemma scanstring_shorter:
  "scanstring s = Some (content, r) \<Longrightarrow> length r < length s"
proof (induction "length s" arbitrary: s content r rule: less_induct)
  case less
  show ?case
  proof (cases s)
    case Nil
    with less.prems show ?thesis by (simp add: scanstring.simps)
  next
    case (Cons c cs)
    have IH: "scanstring t = Some (content', r') \<Longrightarrow> length t \<le> length cs
              \<Longrightarrow> length r' < length t" for t content' r'
      using less.hyps[of t content' r'] Cons by simp
    from less.prems Cons show ?thesis
      by (auto simp: scanstring.simps split: if_splits list.splits option.splits prod.splits
          dest!: IH)
  qed
qed

lemma match_integer_shorter:
  "match_integer s = Some (i, r) \<Longrightarrow> length r < length s"
proof -
  assume a: "match_integer s = Some (i, r)"
  let ?sg = "if take 1 s = ''-'' then ''-'' else []"
  obtain c cs where s1: "drop (length ?sg) s = c # cs" and r: "length r \<le> length cs"
    using a length_dropWhile_le[of is_digit]
    by (auto simp: match_integer_def Let_def split: list.splits if_splits)
  from s1 have "length (c # cs) \<le> length s"
    by (metis length_drop diff_le_self)
  with r show ?thesis by simp
qed

lemma match_frac_shorter: "length (snd (match_frac s)) \<le> length s"
  using length_dropWhile_le[of is_digit]
  by (auto simp: match_frac_def le_SucI split: list.splits)

lemma match_exp_shorter: "length (snd (match_exp s)) \<le> length s"
proof -
  have "length (dropWhile is_digit (drop k xs)) \<le> Suc (length xs)" for k and xs :: string
    using length_dropWhile_le[of is_digit "drop k xs"] by simp
  then show ?thesis
    by (auto simp: match_exp_def Let_def split: list.splits)
qed

lemma match_number_shorter:
  assumes "match_number s = Some (i, f, e, r)"
  shows "length r < length s"
proof -
  from assms obtain r0 where i: "match_integer s = Some (i, r0)"
    and r: "r = snd (match_exp (snd (match_frac r0)))"
    by (auto simp: match_number_def Let_def split: option.splits prod.splits)
  from match_exp_shorter[of "snd (match_frac r0)"] match_frac_shorter[of r0]
    match_integer_shorter[OF i] r
  show ?thesis by simp
qed

lemma skip_ws_length: "length (skip_ws s) \<le> length s"
  by (simp add: skip_ws_def length_dropWhile_le)

lemma skip_drop_skip_length: "length (skip_ws (drop 1 (skip_ws s))) \<le> length s"
proof -
  have "length (skip_ws (drop 1 (skip_ws s))) \<le> length (drop 1 (skip_ws s))"
    by (rule skip_ws_length)
  also have "\<dots> \<le> length (skip_ws s)" by simp
  also have "\<dots> \<le> length s" by (rule skip_ws_length)
  finally show ?thesis .
qed

lemma scanner_shorter:
  "(\<forall>d s v r. scan_once env n d s = Scanned v r \<longrightarrow> length r < length s)
   \<and> (\<forall>d s ps r. parse_object_items env n d s = Scanned ps r \<longrightarrow> length r < length s)
   \<and> (\<forall>d s vs r. parse_array_items env n d s = Scanned vs r \<longrightarrow> length r < length s)"
proof (induction n)
  case 0
  show ?case
    by (simp add: scan_once.simps parse_object_items.simps parse_array_items.simps)
next
  case (Suc n)
  then have IH1: "\<And>d s v r. scan_once env n d s = Scanned v r \<Longrightarrow> length r < length s"
    and IH2: "\<And>d s ps r. parse_object_items env n d s = Scanned ps r \<Longrightarrow> length r < length s"
    and IH3: "\<And>d s vs r. parse_array_items env n d s = Scanned vs r \<Longrightarrow> length r < length s"
    by blast+
  have 1: "length r < length s" if run: "scan_once env (Suc n) d s = Scanned v r" for d s v r
  proof (cases s)
    case Nil
    with run show ?thesis by (simp add: scan_once.simps)
  next
    case (Cons c cs)
    have ws: "length (skip_ws cs) \<le> length cs" by (rule skip_ws_length)
    consider (str) "c = CHR 0x22" | (obj) "c = CHR ''{''" | (arr) "c = CHR ''[''"
      | (atom) "c \<noteq> CHR 0x22" "c \<noteq> CHR ''{''" "c \<noteq> CHR ''[''"
      by blast
    then show ?thesis
    proof cases
      case str
      with run Cons obtain content where "scanstring cs = Some (content, r)"
        by (auto simp: scan_once.simps split: option.splits)
      from scanstring_shorter[OF this] Cons show ?thesis by simp
    next
      case obj
      with run Cons have
        "r = drop 1 (skip_ws cs)
         \<or> (\<exists>ps. parse_object_items env n (d - 1) (skip_ws cs) = Scanned ps r)"
        by (auto simp: scan_once.simps split: if_splits scanned.splits)
      then have "length r \<le> length cs"
        using ws by (auto dest!: IH2)
      with Cons show ?thesis by simp
    next
      case arr
      with run Cons have
        "r = drop 1 (skip_ws cs)
         \<or> (\<exists>vs. parse_array_items env n (d - 1) (skip_ws cs) = Scanned vs r)"
        by (auto simp: scan_once.simps split: if_splits scanned.splits)
      then have "length r \<le> length cs"
        using ws by (auto dest!: IH3)
      with Cons show ?thesis by simp
    next
      case atom
      with run Cons have a: "scan_atom env s = Scanned v r"
        by (simp add: scan_once_atom)
      show ?thesis
      proof (cases "match_number s")
        case None
        with a Cons show ?thesis
          by (auto simp: scan_atom_def split: if_splits)
      next
        case (Some m)
        obtain i f e r' where m: "m = (i, f, e, r')" by (cases m) auto
        from match_number_shorter[OF Some[unfolded m]] have "length r' < length s" .
        with a Some m Cons show ?thesis
          by (auto simp: scan_atom_def split: if_splits option.splits)
      qed
    qed
  qed
  have 2: "length r < length s" if run: "parse_object_items env (Suc n) d s = Scanned ps r"
    for d s ps r
  proof (cases s)
    case Nil
    with run show ?thesis by (simp add: parse_object_items.simps)
  next
    case (Cons q cs)
    from run Cons obtain key r1 v r2 where
      k: "scanstring cs = Some (key, r1)"
      and v: "scan_once env n d (skip_ws (drop 1 (skip_ws r1))) = Scanned v r2"
      and r: "r = drop 1 (skip_ws r2)
              \<or> (\<exists>ps'. parse_object_items env n d (skip_ws (drop 1 (skip_ws r2))) = Scanned ps' r)"
      by (auto simp: parse_object_items.simps split: if_splits option.splits scanned.splits)
    from scanstring_shorter[OF k] have a: "length r1 < length cs" .
    from IH1[OF v] skip_drop_skip_length[of r1] have b: "length r2 < length r1" by simp
    from r have "length r \<le> length r2"
    proof
      assume "r = drop 1 (skip_ws r2)"
      then show ?thesis using skip_ws_length[of r2] by simp
    next
      assume "\<exists>ps'. parse_object_items env n d (skip_ws (drop 1 (skip_ws r2))) = Scanned ps' r"
      then obtain ps' where
        "parse_object_items env n d (skip_ws (drop 1 (skip_ws r2))) = Scanned ps' r" ..
      from IH2[OF this] skip_drop_skip_length[of r2] show ?thesis by simp
    qed
    with a b Cons show ?thesis by simp
  qed
  have 3: "length r < length s" if run: "parse_array_items env (Suc n) d s = Scanned vs r"
    for d s vs r
  proof -
    from run obtain v r1 where
      v: "scan_once env n d s = Scanned v r1"
      and r: "r = drop 1 (skip_ws r1)
              \<or> (\<exists>vs'. parse_array_items env n d (skip_ws (drop 1 (skip_ws r1))) = Scanned vs' r)"
      by (auto simp: parse_array_items.simps split: if_splits scanned.splits)
    from IH1[OF v] have a: "length r1 < length s" .
    from r have "length r \<le> length r1"
    proof
      assume "r = drop 1 (skip_ws r1)"
      then show ?thesis using skip_ws_length[of r1] by simp
    next
      assume "\<exists>vs'. parse_array_items env n d (skip_ws (drop 1 (skip_ws r1))) = Scanned vs' r"
      then obtain vs' where
        "parse_array_items env n d (skip_ws (drop 1 (skip_ws r1))) = Scanned vs' r" ..
      from IH3[OF this] skip_drop_skip_length[of r1] show ?thesis by simp
    qed
    with a show ?thesis by simp
  qed
  from 1 2 3 show ?case by blast
qed

lemma scan_once_shorter: "scan_once env n d s = Scanned v r \<Longrightarrow> length r < length s"
  using scanner_shorter[of env n] by blast

lemma scanner_fuel:
  "(\<forall>d s. 2 * length s + 1 \<le> n \<longrightarrow> scan_once env n d s \<noteq> Exhausted)
   \<and> (\<forall>d s. 2 * length s + 1 \<le> n \<longrightarrow> parse_object_items env n d s \<noteq> Exhausted)
   \<and> (\<forall>d s. 2 * length s + 2 \<le> n \<longrightarrow> parse_array_items env n d s \<noteq> Exhausted)"
proof (induction n)
  case 0
  show ?case by simp
next
  case (Suc n)
  then have IH1: "\<And>d s. 2 * length s + 1 \<le> n \<Longrightarrow> scan_once env n d s \<noteq> Exhausted"
    and IH2: "\<And>d s. 2 * length s + 1 \<le> n \<Longrightarrow> parse_object_items env n d s \<noteq> Exhausted"
    and IH3: "\<And>d s. 2 * length s + 2 \<le> n \<Longrightarrow> parse_array_items env n d s \<noteq> Exhausted"
    by blast+
  have 1: "scan_once env (Suc n) d s \<noteq> Exhausted" if le: "2 * length s + 1 \<le> Suc n" for d s
  proof (cases s)
    case Nil
    then show ?thesis by (simp add: scan_once.simps)
  next
    case (Cons c cs)
    from le Cons skip_ws_length[of cs] have "2 * length (skip_ws cs) + 2 \<le> n"
      by simp
    then have o: "parse_object_items env n (d - 1) (skip_ws cs) \<noteq> Exhausted"
      and a: "parse_array_items env n (d - 1) (skip_ws cs) \<noteq> Exhausted"
      using IH2[of "skip_ws cs" "d - 1"] IH3[of "skip_ws cs" "d - 1"] by simp_all
    consider (str) "c = CHR 0x22" | (obj) "c = CHR ''{''" | (arr) "c = CHR ''[''"
      | (atom) "c \<noteq> CHR 0x22" "c \<noteq> CHR ''{''" "c \<noteq> CHR ''[''"
      by blast
    then show ?thesis
    proof cases
      case str
      with Cons show ?thesis
        by (auto simp: scan_once.simps split: option.splits)
    next
      case obj
      with o Cons show ?thesis
        by (auto simp: scan_once.simps split: scanned.splits)
    next
      case arr
      with a Cons show ?thesis
        by (auto simp: scan_once.simps split: scanned.splits)
    next
      case atom
      with Cons have "scan_once env (Suc n) d s = scan_atom env s"
        by (simp add: scan_once_atom)
      then show ?thesis
        by (auto simp: scan_atom_def split: option.splits)
    qed
  qed
  have 2: "parse_object_items env (Suc n) d s \<noteq> Exhausted"
    if le: "2 * length s + 1 \<le> Suc n" for d s
  proof (cases s)
    case Nil
    then show ?thesis by (simp add: parse_object_items.simps)
  next
    case (Cons q cs)
    have v: "scan_once env n d (skip_ws (drop 1 (skip_ws r1))) \<noteq> Exhausted"
      if "scanstring cs = Some (key, r1)" for key r1
      using scanstring_shorter[OF that] skip_drop_skip_length[of r1] le Cons
      by (intro IH1) simp
    have p: "parse_object_items env n d (skip_ws (drop 1 (skip_ws r2))) \<noteq> Exhausted"
      if "scanstring cs = Some (key, r1)"
        and "scan_once env n d (skip_ws (drop 1 (skip_ws r1))) = Scanned v r2" for key r1 v r2
      using scanstring_shorter[OF that(1)] scan_once_shorter[OF that(2)]
        skip_drop_skip_length[of r1] skip_drop_skip_length[of r2] le Cons
      by (intro IH2) simp
    show ?thesis
    proof (cases "scanstring cs")
      case None
      with Cons show ?thesis by (simp add: parse_object_items.simps)
    next
      case (Some kr)
      obtain key r1 where kr: "kr = (key, r1)" by (cases kr) auto
      note k = Some[unfolded kr]
      show ?thesis
      proof (cases "scan_once env n d (skip_ws (drop 1 (skip_ws r1)))")
        case (Scanned v r2)
        from p[OF k Scanned] Cons k Scanned show ?thesis
          by (simp add: parse_object_items.simps split: scanned.splits)
      next
        case (Rejected why)
        with Cons k show ?thesis by (simp add: parse_object_items.simps)
      next
        case Exhausted
        with v[OF k] show ?thesis by simp
      qed
    qed
  qed
  have 3: "parse_array_items env (Suc n) d s \<noteq> Exhausted"
    if le: "2 * length s + 2 \<le> Suc n" for d s
  proof -
    from le have v: "scan_once env n d s \<noteq> Exhausted"
      by (intro IH1) simp
    have p: "parse_array_items env n d (skip_ws (drop 1 (skip_ws r))) \<noteq> Exhausted"
      if "scan_once env n d s = Scanned v r" for v r
      using scan_once_shorter[OF that] skip_drop_skip_length[of r] le
      by (intro IH3) simp
    show ?thesis
    proof (cases "scan_once env n d s")
      case (Scanned v r)
      from p[OF Scanned] Scanned show ?thesis
        by (simp add: parse_array_items.simps split: scanned.splits)
    next
      case (Rejected why)
      then show ?thesis by (simp add: parse_array_items.simps)
    next
      case Exhausted
      with v show ?thesis by simp
    qed
  qed
  from 1 2 3 show ?case by blast
qed

lemma json_loads_fuel: "json_loads env doc \<noteq> Inl FuelExhausted"
proof -
  have "2 * length (skip_ws doc) + 1 \<le> 2 * length doc + 2"
    using skip_ws_length[of doc] by simp
  with scanner_fuel[of "2 * length doc + 2" env]
  have "scan_once env (2 * length doc + 2) (recursion_budget env) (skip_ws doc) \<noteq> Exhausted"
    by blast
  then show ?thesis
    by (auto simp: json_loads_def split: scanned.splits reject.splits)
qed

section \<open>The example collaborators on examples\<close>

text \<open>
  A text without \<^verbatim>\<open>//\<close> after its scheme has no network location, whatever it holds.
\<close>

lemma netloc_needs_two_slashes:
  "netloc_of_url ''x/ymyntra.com'' = []
   \<and> netloc_of_url ''mailto:me@myntra.com'' = []
   \<and> netloc_of_url ''//myntra.com/p'' = ''myntra.com''"
  by (simp add: url_defs)

text \<open>\<^verbatim>\<open>int\<close> on three strings.\<close>

lemma int_of_decimal_examples:
  "int_of_decimal 4300 '' 1_999 '' = Inr 1999
   \<and> int_of_decimal 4300 ''-5'' = Inr (- 5)
   \<and> int_of_decimal 4300 ''12.5'' = Inl (ValueError [])"
  by code_simp

text \<open>
  A price written with a fraction is decoded to the nearest binary64 number and
  truncated by \<^verbatim>\<open>int\<close>.
\<close>

lemma float_price_is_truncated:
  "extract_product plain_env [''var pdpData = {\"mrp\": 1999.99}''] =
     Inr \<lparr>title = ''Unknown Product'', primary_image = [], original_price = 1999,
          discounted_price = 1999, in_stock = True\<rparr>"
  by code_simp


end
